theory Spec2Isabelle
  imports Complex_Main
begin

text \<open>
  A model of the header \<^verbatim>\<open>TSimpleMCMC.H\<close>: the Metropolis-Hastings driver
  \<^verbatim>\<open>TSimpleMCMC\<close>, the fixed-width proposal \<^verbatim>\<open>TProposeSimpleStep\<close> and the adaptive
  proposal \<^verbatim>\<open>TProposeAdaptiveStep\<close>. The repository holds two copies of the header. The
  model follows the later one, which counts the likelihood calls and keeps separate trial
  counts for the acceptance, the central point and the covariance. The earlier copy has
  the same \<^verbatim>\<open>Step\<close>, the same check whether the point moved and the same proposal loop.
  What the code prints is left out.
\<close>

section \<open>Double-precision values\<close>

text \<open>
  The sampler computes with C++ \<^verbatim>\<open>double\<close>. A value is a finite number, one of the two
  infinities, or NaN. The comparisons and the special cases of the arithmetic follow
  IEEE 754 (a comparison with NaN is false, \<^verbatim>\<open>inf - inf\<close> is NaN, \<^verbatim>\<open>log(0)\<close> is
  \<^verbatim>\<open>-inf\<close>). A finite result is the exact real result: rounding, overflow to an infinity
  and the sign of zero are outside this model, with one exception. The range of
  \<^verbatim>\<open>Uniform(a,b)\<close> depends on the rounding, and its three operations are the rounded
  ones that the end of this section defines.
\<close>

datatype dbl = Fin real | PInf | MInf | NaN

fun dneg :: "dbl \<Rightarrow> dbl" where
  "dneg (Fin x) = Fin (- x)"
| "dneg PInf = MInf"
| "dneg MInf = PInf"
| "dneg NaN = NaN"

fun dadd :: "dbl \<Rightarrow> dbl \<Rightarrow> dbl" where
  "dadd NaN b = NaN"
| "dadd (Fin x) (Fin y) = Fin (x + y)"
| "dadd (Fin x) b = b"
| "dadd PInf (Fin y) = PInf"
| "dadd PInf PInf = PInf"
| "dadd PInf MInf = NaN"
| "dadd PInf NaN = NaN"
| "dadd MInf (Fin y) = MInf"
| "dadd MInf MInf = MInf"
| "dadd MInf PInf = NaN"
| "dadd MInf NaN = NaN"

definition dsub :: "dbl \<Rightarrow> dbl \<Rightarrow> dbl" where
  "dsub a b = dadd a (dneg b)"

text \<open>The sign of a value: \<open>1\<close>, \<open>0\<close> or \<open>-1\<close>; NaN has none and is handled before.\<close>

fun dsgn :: "dbl \<Rightarrow> int" where
  "dsgn (Fin x) = (if 0 < x then 1 else if x = 0 then 0 else - 1)"
| "dsgn PInf = 1"
| "dsgn MInf = - 1"
| "dsgn NaN = 0"

definition inf_of_sign :: "int \<Rightarrow> dbl" where
  "inf_of_sign k = (if k = 0 then NaN else if 0 < k then PInf else MInf)"

fun dmul :: "dbl \<Rightarrow> dbl \<Rightarrow> dbl" where
  "dmul NaN b = NaN"
| "dmul a NaN = NaN"
| "dmul (Fin x) (Fin y) = Fin (x * y)"
| "dmul a b = inf_of_sign (dsgn a * dsgn b)"

fun ddiv :: "dbl \<Rightarrow> dbl \<Rightarrow> dbl" where
  "ddiv NaN b = NaN"
| "ddiv a NaN = NaN"
| "ddiv (Fin x) (Fin y) = (if y = 0 then inf_of_sign (dsgn (Fin x)) else Fin (x / y))"
| "ddiv (Fin x) b = Fin 0"
| "ddiv a (Fin y) = inf_of_sign (dsgn a * (if 0 \<le> y then 1 else - 1))"
| "ddiv a b = NaN"

text \<open>\<^verbatim>\<open>a < b\<close> and \<^verbatim>\<open>a != b\<close> on doubles.\<close>

fun dless :: "dbl \<Rightarrow> dbl \<Rightarrow> bool" where
  "dless NaN b = False"
| "dless a NaN = False"
| "dless (Fin x) (Fin y) = (x < y)"
| "dless a MInf = False"
| "dless PInf b = False"
| "dless a b = True"

definition dne :: "dbl \<Rightarrow> dbl \<Rightarrow> bool" where
  "dne a b = (a = NaN \<or> b = NaN \<or> a \<noteq> b)"

definition dge :: "dbl \<Rightarrow> dbl \<Rightarrow> bool" where
  "dge a b = (dless b a \<or> \<not> dne a b)"

text \<open>
  \<^verbatim>\<open>std::min(a,b)\<close> is \<^verbatim>\<open>(b < a) ? b : a\<close> and \<^verbatim>\<open>std::max(a,b)\<close> is
  \<^verbatim>\<open>(a < b) ? b : a\<close>.
\<close>

definition dmin :: "dbl \<Rightarrow> dbl \<Rightarrow> dbl" where
  "dmin a b = (if dless b a then b else a)"

definition dmax :: "dbl \<Rightarrow> dbl \<Rightarrow> dbl" where
  "dmax a b = (if dless a b then b else a)"

fun dsqrt :: "dbl \<Rightarrow> dbl" where
  "dsqrt (Fin x) = (if x < 0 then NaN else Fin (sqrt x))"
| "dsqrt PInf = PInf"
| "dsqrt MInf = NaN"
| "dsqrt NaN = NaN"

fun dlog :: "dbl \<Rightarrow> dbl" where
  "dlog (Fin x) = (if x = 0 then MInf else if x < 0 then NaN else Fin (ln x))"
| "dlog PInf = PInf"
| "dlog MInf = NaN"
| "dlog NaN = NaN"

text \<open>
  \<^verbatim>\<open>std::pow\<close> with the special cases of the C standard: any power with exponent zero
  is one, every power of one is one (also for a NaN exponent), a negative base needs an
  integral exponent.
\<close>

definition is_integral :: "real \<Rightarrow> bool" where
  "is_integral y = (y = of_int \<lfloor>y\<rfloor>)"

definition is_odd_integral :: "real \<Rightarrow> bool" where
  "is_odd_integral y = (is_integral y \<and> odd \<lfloor>y\<rfloor>)"

fun dpow_cases :: "dbl \<Rightarrow> dbl \<Rightarrow> dbl" where
  "dpow_cases NaN b = NaN"
| "dpow_cases a NaN = NaN"
| "dpow_cases (Fin x) (Fin y) =
     (if 0 < x then Fin (x powr y)
      else if x = 0 then (if 0 < y then Fin 0 else PInf)
      else if is_integral y
        then Fin ((if is_odd_integral y then - 1 else 1) * (\<bar>x\<bar> powr y))
      else NaN)"
| "dpow_cases (Fin x) PInf = (if \<bar>x\<bar> < 1 then Fin 0 else if 1 < \<bar>x\<bar> then PInf else Fin 1)"
| "dpow_cases (Fin x) MInf = (if \<bar>x\<bar> < 1 then PInf else if 1 < \<bar>x\<bar> then Fin 0 else Fin 1)"
| "dpow_cases PInf (Fin y) = (if y < 0 then Fin 0 else PInf)"
| "dpow_cases PInf PInf = PInf"
| "dpow_cases PInf MInf = Fin 0"
| "dpow_cases MInf (Fin y) =
     (if y < 0 then Fin 0 else if is_odd_integral y then MInf else PInf)"
| "dpow_cases MInf PInf = PInf"
| "dpow_cases MInf MInf = Fin 0"

definition dpow :: "dbl \<Rightarrow> dbl \<Rightarrow> dbl" where
  "dpow a b = (if b = Fin 0 then Fin 1 else if a = Fin 1 then Fin 1 else dpow_cases a b)"

text \<open>
  The conversion of a double to \<^verbatim>\<open>int\<close> truncates toward zero; it is undefined for a
  value that is not finite. The C++ \<^verbatim>\<open>int\<close> counters are unbounded integers here:
  their overflow is outside this model.
\<close>

datatype error = Terminated | OutOfBounds | Undefined

fun d2i :: "dbl \<Rightarrow> error + int" where
  "d2i (Fin x) = Inr (if 0 \<le> x then \<lfloor>x\<rfloor> else \<lceil>x\<rceil>)"
| "d2i a = Inl Undefined"

definition i2d :: "int \<Rightarrow> dbl" where
  "i2d k = Fin (of_int k)"

subsection \<open>Rounding to double precision\<close>

text \<open>
  IEEE 754 rounds to the nearest double, and a tie goes to the even significand.
  \<open>rne\<close> rounds a real to the nearest integer in that way. A double has a
  significand of 53 bits: the doubles next to a positive real \<open>a\<close> are the multiples of
  \<open>2\<close> to the power \<open>fexp a\<close>, which is \<open>\<lfloor>log\<^sub>2 a\<rfloor> - 52\<close> for a normal number and
  \<open>-1074\<close> in the subnormal range. \<open>rnd\<close> rounds a real with an unbounded exponent,
  and \<open>round64\<close> turns a result with a magnitude of \<^verbatim>\<open>2^1024\<close> or more into an
  infinity. \<^verbatim>\<open>fadd\<close>, \<^verbatim>\<open>fsub\<close> and \<^verbatim>\<open>fmul\<close> are the rounded operations, each
  rounded on its own (no fused multiply-add). A real is a double when the rounding
  leaves it as it is; \<open>denorm_min\<close> is the smallest positive double.
\<close>

definition rne :: "real \<Rightarrow> int" where
  "rne r = (let f = \<lfloor>r\<rfloor> in
     if r - of_int f < 1 / 2 then f
     else if 1 / 2 < r - of_int f then f + 1
     else if even f then f else f + 1)"

definition fexp :: "real \<Rightarrow> int" where
  "fexp a = max (\<lfloor>log 2 a\<rfloor> - 52) (- 1074)"

definition rabs :: "real \<Rightarrow> real" where
  "rabs a = of_int (rne (a / 2 powi fexp a)) * 2 powi fexp a"

definition rnd :: "real \<Rightarrow> real" where
  "rnd x = sgn x * rabs \<bar>x\<bar>"

definition round64 :: "real \<Rightarrow> dbl" where
  "round64 x = (let y = rnd x in
     if 2 ^ 1024 \<le> \<bar>y\<bar> then (if 0 < y then PInf else MInf) else Fin y)"

fun dround :: "dbl \<Rightarrow> dbl" where
  "dround (Fin x) = round64 x"
| "dround a = a"

definition fadd :: "dbl \<Rightarrow> dbl \<Rightarrow> dbl" where
  "fadd a b = dround (dadd a b)"

definition fsub :: "dbl \<Rightarrow> dbl \<Rightarrow> dbl" where
  "fsub a b = dround (dsub a b)"

definition fmul :: "dbl \<Rightarrow> dbl \<Rightarrow> dbl" where
  "fmul a b = dround (dmul a b)"

definition is_double :: "real \<Rightarrow> bool" where
  "is_double x = (round64 x = Fin x)"

definition denorm_min :: real where
  "denorm_min = 2 powi (- 1074)"

section \<open>Errors and vectors\<close>

text \<open>
  \<open>Terminated\<close>: a bare \<^verbatim>\<open>throw;\<close> with no exception in flight calls
  \<^verbatim>\<open>std::terminate\<close>, as does an exception nobody catches. \<open>OutOfBounds\<close>: an access
  to a \<^verbatim>\<open>std::vector\<close> outside its size, which the unchecked \<^verbatim>\<open>operator[]\<close> and
  \<^verbatim>\<open>std::copy\<close> leave undefined.
\<close>

definition ebind :: "error + 'a \<Rightarrow> ('a \<Rightarrow> error + 'b) \<Rightarrow> error + 'b" where
  "ebind m f = (case m of Inl e \<Rightarrow> Inl e | Inr v \<Rightarrow> f v)"

fun efold :: "('i \<Rightarrow> 's \<Rightarrow> error + 's) \<Rightarrow> 'i list \<Rightarrow> 's \<Rightarrow> error + 's" where
  "efold f [] s = Inr s"
| "efold f (i # is) s = ebind (f i s) (efold f is)"

type_synonym Vector = "dbl list"

definition vget :: "'a list \<Rightarrow> nat \<Rightarrow> error + 'a" where
  "vget xs i = (if i < length xs then Inr (xs ! i) else Inl OutOfBounds)"

definition vset :: "'a list \<Rightarrow> nat \<Rightarrow> 'a \<Rightarrow> error + 'a list" where
  "vset xs i v = (if i < length xs then Inr (xs[i := v]) else Inl OutOfBounds)"

text \<open>\<^verbatim>\<open>std::copy(src.begin(), src.end(), dst.begin())\<close>: the destination keeps its size.\<close>

definition vcopy :: "'a list \<Rightarrow> 'a list \<Rightarrow> error + 'a list" where
  "vcopy src dst =
     (if length src \<le> length dst then Inr (src @ drop (length src) dst)
      else Inl OutOfBounds)"

text \<open>\<^verbatim>\<open>v.resize(n)\<close>: the old elements stay, new ones are value-initialised.\<close>

definition vresize :: "'a \<Rightarrow> nat \<Rightarrow> 'a list \<Rightarrow> 'a list" where
  "vresize z n xs = take n xs @ replicate (n - length xs) z"

section \<open>The random source\<close>

text \<open>
  \<^verbatim>\<open>gRandom\<close> is ROOT's process-wide generator. Its draws are an input of the model: a
  tape of raw uniform deviates and a tape of standard normal deviates, each with the
  position of the next draw. \<^verbatim>\<open>Uniform()\<close> is the raw deviate, \<^verbatim>\<open>Uniform(a,b)\<close> is
  \<^verbatim>\<open>a + (b-a)*u\<close>, each operation rounded to a double, and \<^verbatim>\<open>Gaus(m,s)\<close> is
  \<^verbatim>\<open>m + s*z\<close>.
\<close>

record rng =
  rndm_tape :: "nat \<Rightarrow> real"
  gaus_tape :: "nat \<Rightarrow> real"
  rndm_pos :: nat
  gaus_pos :: nat

definition Uniform0 :: "rng \<Rightarrow> dbl \<times> rng" where
  "Uniform0 g = (Fin (rndm_tape g (rndm_pos g)), g\<lparr>rndm_pos := Suc (rndm_pos g)\<rparr>)"

definition Uniform2 :: "dbl \<Rightarrow> dbl \<Rightarrow> rng \<Rightarrow> dbl \<times> rng" where
  "Uniform2 a b g =
     (fadd a (fmul (fsub b a) (Fin (rndm_tape g (rndm_pos g)))),
      g\<lparr>rndm_pos := Suc (rndm_pos g)\<rparr>)"

definition Gaus :: "dbl \<Rightarrow> dbl \<Rightarrow> rng \<Rightarrow> dbl \<times> rng" where
  "Gaus m s g =
     (dadd m (dmul s (Fin (gaus_tape g (gaus_pos g)))),
      g\<lparr>gaus_pos := Suc (gaus_pos g)\<rparr>)"

section \<open>The sampler driver: \<^verbatim>\<open>TSimpleMCMC\<close>\<close>

text \<open>
  The output tree is the sink. It has the branches \<^verbatim>\<open>LogLikelihood\<close> and
  \<^verbatim>\<open>Accepted\<close>, and the branch \<^verbatim>\<open>Step\<close> when the constructor was asked to save the
  trial steps; \<^verbatim>\<open>Fill\<close> appends the current values of the branches.
\<close>

record TTree =
  hasStepBranch :: bool
  entries :: "(dbl \<times> Vector \<times> Vector option) list"

record 'p TSimpleMCMC =
  fProposeStep :: 'p
  fTree :: "TTree option"
  fLogLikelihoodCount :: int
  fAccepted :: Vector
  fAcceptedLogLikelihood :: dbl
  fTrialStep :: Vector
  fProposed :: Vector
  fProposedLogLikelihood :: dbl

text \<open>
  The constructor. The vectors start empty; the two cached likelihoods are not
  initialised by the source, so their first values are parameters here.
\<close>

definition TSimpleMCMC_new ::
  "'p \<Rightarrow> bool option \<Rightarrow> dbl \<Rightarrow> dbl \<Rightarrow> 'p TSimpleMCMC" where
  "TSimpleMCMC_new p tree la lp =
     \<lparr>fProposeStep = p,
      fTree = map_option (\<lambda>saveStep. \<lparr>hasStepBranch = saveStep, entries = []\<rparr>) tree,
      fLogLikelihoodCount = 0, fAccepted = [], fAcceptedLogLikelihood = la,
      fTrialStep = [], fProposed = [], fProposedLogLikelihood = lp\<rparr>"

definition Fill :: "'p TSimpleMCMC \<Rightarrow> TTree \<Rightarrow> TTree" where
  "Fill s t =
     t\<lparr>entries := entries t @
        [(fAcceptedLogLikelihood s, fAccepted s,
          if hasStepBranch t then Some (fTrialStep s) else None)]\<rparr>"

definition SaveStep :: "'p TSimpleMCMC \<Rightarrow> 'p TSimpleMCMC" where
  "SaveStep s = (case fTree s of None \<Rightarrow> s | Some t \<Rightarrow> s\<lparr>fTree := Some (Fill s t)\<rparr>)"

text \<open>
  The user likelihood is a template argument of the class: a parameter \<open>L\<close> of the model,
  a function of the point. \<^verbatim>\<open>GetLogLikelihoodValue\<close> counts the call.
\<close>

definition GetLogLikelihoodValue ::
  "(Vector \<Rightarrow> dbl) \<Rightarrow> Vector \<Rightarrow> 'p TSimpleMCMC \<Rightarrow> dbl \<times> 'p TSimpleMCMC" where
  "GetLogLikelihoodValue L point s =
     (L point, s\<lparr>fLogLikelihoodCount := fLogLikelihoodCount s + 1\<rparr>)"

definition Start :: "(Vector \<Rightarrow> dbl) \<Rightarrow> Vector \<Rightarrow> bool \<Rightarrow> 'p TSimpleMCMC \<Rightarrow> 'p TSimpleMCMC" where
  "Start L start save s =
     (let s1 = s\<lparr>fProposed := start, fAccepted := start,
                 fTrialStep := vresize (Fin 0) (length start) (fTrialStep s)\<rparr>;
          (l, s2) = GetLogLikelihoodValue L (fProposed s1) s1;
          s3 = s2\<lparr>fProposedLogLikelihood := l, fAcceptedLogLikelihood := l\<rparr>
      in if save then SaveStep s3 else s3)"

text \<open>The loop of \<^verbatim>\<open>Step\<close> that caches the trial step, one index at a time.\<close>

definition trial_step_at :: "nat \<Rightarrow> 'p TSimpleMCMC \<Rightarrow> error + 'p TSimpleMCMC" where
  "trial_step_at i s =
     ebind (vget (fProposed s) i) (\<lambda>p.
     ebind (vget (fAccepted s) i) (\<lambda>a.
     ebind (vset (fTrialStep s) i (dsub p a)) (\<lambda>t.
     Inr (s\<lparr>fTrialStep := t\<rparr>))))"

definition cache_trial_step :: "'p TSimpleMCMC \<Rightarrow> error + 'p TSimpleMCMC" where
  "cache_trial_step s = efold trial_step_at [0..<length (fProposed s)] s"

text \<open>The end of \<^verbatim>\<open>Step\<close>: "We're keeping a new step".\<close>

definition Step_keep ::
  "bool \<Rightarrow> 'p TSimpleMCMC \<Rightarrow> rng \<Rightarrow> error + bool \<times> 'p TSimpleMCMC \<times> rng" where
  "Step_keep save s g =
     ebind (vcopy (fProposed s) (fAccepted s)) (\<lambda>a.
       let s1 = s\<lparr>fAccepted := a, fAcceptedLogLikelihood := fProposedLogLikelihood s\<rparr>
       in Inr (True, if save then SaveStep s1 else s1, g))"

text \<open>The accept/reject test of \<^verbatim>\<open>Step\<close>, from the computation of \<^verbatim>\<open>delta\<close> on.\<close>

definition Step_decide ::
  "bool \<Rightarrow> 'p TSimpleMCMC \<Rightarrow> rng \<Rightarrow> error + bool \<times> 'p TSimpleMCMC \<times> rng" where
  "Step_decide save s g =
     (let delta = dsub (fProposedLogLikelihood s) (fAcceptedLogLikelihood s) in
      if dless delta (Fin 0) then
        (let (u, g1) = Uniform0 g; trial = dlog u in
         if dless delta trial then Inr (False, if save then SaveStep s else s, g1)
         else Step_keep save s g1)
      else Step_keep save s g)"

text \<open>
  \<^verbatim>\<open>Step\<close>. The proposal is the second template argument: a parameter \<open>propose\<close> that
  takes the proposal object, the random source, the vector to fill, the current point
  and its log likelihood, and returns the three it may change. It returns \<open>None\<close> when
  it does not return at all.
\<close>

type_synonym 'p proposal =
  "'p \<Rightarrow> rng \<Rightarrow> Vector \<Rightarrow> Vector \<Rightarrow> dbl \<Rightarrow> (error + 'p \<times> rng \<times> Vector) option"

definition Step_after ::
  "(Vector \<Rightarrow> dbl) \<Rightarrow> bool \<Rightarrow> 'p TSimpleMCMC \<Rightarrow> rng \<Rightarrow> error + bool \<times> 'p TSimpleMCMC \<times> rng" where
  "Step_after L save s g =
     ebind (if save then cache_trial_step s else Inr s) (\<lambda>s1.
       let (l, s2) = GetLogLikelihoodValue L (fProposed s1) s1
       in Step_decide save (s2\<lparr>fProposedLogLikelihood := l\<rparr>) g)"

definition Step ::
  "(Vector \<Rightarrow> dbl) \<Rightarrow> 'p proposal \<Rightarrow> bool \<Rightarrow> 'p TSimpleMCMC \<Rightarrow> rng
   \<Rightarrow> (error + bool \<times> 'p TSimpleMCMC \<times> rng) option" where
  "Step L propose save s g =
     (if fProposed s = [] \<or> fAccepted s = [] then Some (Inl Terminated)
      else
        (case propose (fProposeStep s) g (fProposed s) (fAccepted s) (fAcceptedLogLikelihood s) of
           None \<Rightarrow> None
         | Some (Inl e) \<Rightarrow> Some (Inl e)
         | Some (Inr (p, g1, proposed)) \<Rightarrow>
             Some (Step_after L save (s\<lparr>fProposeStep := p, fProposed := proposed\<rparr>) g1)))"

subsection \<open>\<^verbatim>\<open>TProposeSimpleStep\<close>\<close>

text \<open>The fixed-width proposal of the source; its only field is the width.\<close>

record TProposeSimpleStep =
  fSigmaSimple :: dbl

definition TProposeSimpleStep_new :: TProposeSimpleStep where
  "TProposeSimpleStep_new = \<lparr>fSigmaSimple = Fin (- 1)\<rparr>"

definition simple_step_at :: "dbl \<Rightarrow> Vector \<Rightarrow> nat \<Rightarrow> Vector \<times> rng \<Rightarrow> error + Vector \<times> rng" where
  "simple_step_at sigma current i st =
     (case st of (proposal, g) \<Rightarrow>
        ebind (vget current i) (\<lambda>c.
          let (z, g1) = Gaus (Fin 0) sigma g in
          ebind (vset proposal i (dadd c z)) (\<lambda>p. Inr (p, g1))))"

definition TProposeSimpleStep_call :: "TProposeSimpleStep proposal" where
  "TProposeSimpleStep_call p g proposal current v =
     (let sigma0 = fSigmaSimple p;
          sigma = (if dless sigma0 (Fin 0)
                   then dsqrt (ddiv (Fin 1) (Fin (real (length proposal)))) else sigma0)
      in Some (ebind (efold (simple_step_at sigma current) [0..<length proposal] (proposal, g))
                 (\<lambda>(q, g1). Inr (p, g1, q))))"

section \<open>The adaptive proposal: \<^verbatim>\<open>TProposeAdaptiveStep\<close>\<close>

subsection \<open>Matrices\<close>

text \<open>
  \<^verbatim>\<open>TMatrixD\<close> is ROOT's matrix of doubles, here the list of its rows. Its element
  access is range-checked by ROOT: a request outside the matrix is reported and yields
  ROOT's NaN cell, so a read there is NaN and a write there does not change the matrix.
  \<^verbatim>\<open>ResizeTo\<close> keeps the overlapping part and fills the rest with zero.
\<close>

type_synonym TMatrixD = "dbl list list"

definition mget :: "TMatrixD \<Rightarrow> nat \<Rightarrow> nat \<Rightarrow> dbl" where
  "mget m i j = (if i < length m \<and> j < length (m ! i) then m ! i ! j else NaN)"

definition mset :: "TMatrixD \<Rightarrow> nat \<Rightarrow> nat \<Rightarrow> dbl \<Rightarrow> TMatrixD" where
  "mset m i j v = (if i < length m \<and> j < length (m ! i) then m[i := (m ! i)[j := v]] else m)"

definition ResizeTo :: "nat \<Rightarrow> nat \<Rightarrow> TMatrixD \<Rightarrow> TMatrixD" where
  "ResizeTo r c m =
     map (\<lambda>i. map (\<lambda>j. if i < length m \<and> j < length (m ! i) then m ! i ! j else Fin 0) [0..<c])
       [0..<r]"

subsection \<open>State\<close>

record ProposalType =
  type :: int
  param1 :: dbl
  param2 :: dbl

definition ProposalType_new :: ProposalType where
  "ProposalType_new = \<lparr>type = 0, param1 = Fin 0, param2 = Fin 0\<rparr>"

record TProposeAdaptiveStep =
  fLastPoint :: Vector
  fLastValue :: dbl
  fCentralPoint :: Vector
  fCentralPointTrials :: dbl
  fCurrentCov :: TMatrixD
  fCovarianceTrials :: dbl
  fCovarianceWindow :: dbl
  fDecomposition :: TMatrixD
  fProposalType :: "ProposalType list"
  fTrials :: int
  fSuccesses :: int
  fNextUpdate :: int
  fAcceptance :: dbl
  fAcceptanceTrials :: dbl
  fAcceptanceWindow :: dbl
  fTargetAcceptance :: dbl
  fSigma :: dbl
  fStateInitialized :: bool

text \<open>
  The constructor. It leaves \<^verbatim>\<open>fCentralPointTrials\<close>, \<^verbatim>\<open>fCovarianceTrials\<close> and
  \<^verbatim>\<open>fAcceptanceTrials\<close> uninitialised: their first values are parameters.
\<close>

definition TProposeAdaptiveStep_new :: "dbl \<Rightarrow> dbl \<Rightarrow> dbl \<Rightarrow> TProposeAdaptiveStep" where
  "TProposeAdaptiveStep_new cpt ct atr =
     \<lparr>fLastPoint = [], fLastValue = Fin 0, fCentralPoint = [], fCentralPointTrials = cpt,
      fCurrentCov = [], fCovarianceTrials = ct, fCovarianceWindow = Fin (- 1),
      fDecomposition = [], fProposalType = [], fTrials = 0, fSuccesses = 0,
      fNextUpdate = - 1, fAcceptance = Fin 0, fAcceptanceTrials = atr,
      fAcceptanceWindow = Fin (- 1), fTargetAcceptance = Fin (44 / 100), fSigma = Fin 0,
      fStateInitialized = False\<rparr>"

subsection \<open>Configuration\<close>

text \<open>
  \<^verbatim>\<open>SetDim\<close> reports an error and returns when the dimensionality is already set. A
  negative \<^verbatim>\<open>dim\<close> converts to a size beyond \<^verbatim>\<open>max_size()\<close>, and \<^verbatim>\<open>resize\<close> throws.
\<close>

definition SetDim :: "int \<Rightarrow> TProposeAdaptiveStep \<Rightarrow> error + TProposeAdaptiveStep" where
  "SetDim idim s =
     (if fLastPoint s \<noteq> [] then Inr s
      else if idim < 0 then Inl Terminated
      else Inr (s\<lparr>fLastPoint := vresize (Fin 0) (nat idim) (fLastPoint s),
                  fProposalType := vresize ProposalType_new (nat idim) (fProposalType s)\<rparr>))"

definition SetUniform :: "int \<Rightarrow> dbl \<Rightarrow> dbl \<Rightarrow> TProposeAdaptiveStep \<Rightarrow> TProposeAdaptiveStep" where
  "SetUniform idim minimum maximum s =
     (if idim < 0 \<or> length (fProposalType s) \<le> nat idim then s
      else s\<lparr>fProposalType := (fProposalType s)
               [nat idim := (fProposalType s ! nat idim)
                  \<lparr>type := 1, param1 := minimum, param2 := maximum\<rparr>]\<rparr>)"

definition SetGaussian :: "int \<Rightarrow> dbl \<Rightarrow> TProposeAdaptiveStep \<Rightarrow> TProposeAdaptiveStep" where
  "SetGaussian idim sigma s =
     (if idim < 0 \<or> length (fProposalType s) \<le> nat idim then s
      else s\<lparr>fProposalType := (fProposalType s)
               [nat idim := (fProposalType s ! nat idim)
                  \<lparr>type := 0, param1 := dmul sigma sigma\<rparr>]\<rparr>)"

definition SetCovarianceWindow :: "int \<Rightarrow> TProposeAdaptiveStep \<Rightarrow> TProposeAdaptiveStep" where
  "SetCovarianceWindow w s = s\<lparr>fCovarianceWindow := i2d w\<rparr>"

definition GetEstimatedCenter :: "TProposeAdaptiveStep \<Rightarrow> Vector" where
  "GetEstimatedCenter s = fCentralPoint s"

subsection \<open>\<^verbatim>\<open>UpdateProposal\<close> and \<^verbatim>\<open>ResetProposal\<close>\<close>

text \<open>
  The first statements of \<^verbatim>\<open>UpdateProposal\<close> after its diagnostics: the trial counts
  of the covariance and of the acceptance are deweighted.
\<close>

definition deweight :: "TProposeAdaptiveStep \<Rightarrow> TProposeAdaptiveStep" where
  "deweight s =
     (let ct1 = dmax (Fin 1000) (dmul (Fin (1 / 10)) (fCovarianceTrials s));
          ct2 = dmin ct1 (dmul (Fin (1 / 10)) (fCovarianceWindow s));
          at1 = dmax (Fin 1000) (dmul (Fin (1 / 10)) (fAcceptanceTrials s));
          at2 = dmin at1 (dmul (Fin (1 / 10)) (fAcceptanceWindow s))
      in s\<lparr>fCovarianceTrials := ct2, fAcceptanceTrials := at2\<rparr>)"

text \<open>
  The repair of a covariance that has no Cholesky decomposition. First the variances:
  the expected variance of a dimension comes from its proposal type, and the branch for
  any other type is a bare \<^verbatim>\<open>throw\<close>.
\<close>

definition dbl_epsilon :: dbl where
  "dbl_epsilon = Fin (1 / 2 ^ 52)"

definition expectedVariance :: "ProposalType \<Rightarrow> error + dbl" where
  "expectedVariance t =
     (if type t = 0 \<and> dless (Fin 0) (param1 t) then Inr (param1 t)
      else if type t = 1 then
        (let e = dsub (param2 t) (param1 t) in Inr (ddiv (dmul e e) (Fin 12)))
      else Inl Terminated)"

definition floor_variance_at :: "nat \<Rightarrow> TProposeAdaptiveStep \<Rightarrow> error + TProposeAdaptiveStep" where
  "floor_variance_at i s =
     ebind (vget (fProposalType s) i) (\<lambda>t.
     ebind (expectedVariance t) (\<lambda>ev.
       let minimum = dsqrt dbl_epsilon in
       if dless (mget (fCurrentCov s) i i) (dmul minimum ev)
       then Inr (s\<lparr>fCurrentCov := mset (fCurrentCov s) i i (dmul minimum ev)\<rparr>)
       else Inr s))"

text \<open>Then the correlations, for every pair \<open>i < j\<close>.\<close>

definition cap_correlation_at :: "nat \<Rightarrow> nat \<Rightarrow> TMatrixD \<Rightarrow> TMatrixD" where
  "cap_correlation_at i j c =
     (let correlation = ddiv (ddiv (mget c i j) (dsqrt (mget c i i))) (dsqrt (mget c j j));
          maxCorrelation = Fin (95 / 100)
      in if dless correlation maxCorrelation then c
         else
           (let c1 = mset c i j (dmul maxCorrelation maxCorrelation);
                c2 = mset c1 i j (dmul (mget c1 i j) (dsqrt (mget c1 i i)));
                c3 = mset c2 i j (dmul (mget c2 i j) (dsqrt (mget c2 j j)))
            in mset c3 j i (mget c3 i j)))"

definition cap_correlations :: "nat \<Rightarrow> TMatrixD \<Rightarrow> TMatrixD" where
  "cap_correlations n c =
     fold (\<lambda>i c1. fold (\<lambda>j c2. cap_correlation_at i j c2) [Suc i..<n] c1) [0..<n] c"

definition repair_covariance :: "TProposeAdaptiveStep \<Rightarrow> error + TProposeAdaptiveStep" where
  "repair_covariance s =
     ebind (efold floor_variance_at [0..<length (fLastPoint s)] s) (\<lambda>s1.
       Inr (s1\<lparr>fCurrentCov := cap_correlations (length (fLastPoint s1)) (fCurrentCov s1)\<rparr>))"

text \<open>
  The statements of \<^verbatim>\<open>ResetProposal\<close> before its final call of \<^verbatim>\<open>UpdateProposal\<close>.
  The proposal type of dimension \<open>i\<close> is read on the diagonal only.
\<close>

definition seed_covariance_at :: "ProposalType list \<Rightarrow> nat \<Rightarrow> nat \<Rightarrow> TMatrixD \<Rightarrow> error + TMatrixD" where
  "seed_covariance_at ts i j c =
     (if i = j then
        ebind (vget ts i) (\<lambda>t.
          if type t = 0 \<and> dless (Fin 0) (param1 t) then Inr (mset c i i (param1 t))
          else Inr (mset c i i (Fin 1)))
      else Inr (mset (mset c j i (Fin 0)) i j (Fin 0)))"

definition seed_covariance :: "ProposalType list \<Rightarrow> nat \<Rightarrow> TMatrixD \<Rightarrow> error + TMatrixD" where
  "seed_covariance ts n c =
     efold (\<lambda>i. efold (seed_covariance_at ts i) [i..<n]) [0..<n] c"

definition ResetProposal_setup :: "TProposeAdaptiveStep \<Rightarrow> error + TProposeAdaptiveStep" where
  "ResetProposal_setup s =
     (let n = length (fLastPoint s);
          guess = dsqrt (ddiv (Fin 1) (Fin (real n)));
          s1 = s\<lparr>fTrials := 0, fSuccesses := 0,
                 fSigma := (if dless (fSigma s) (dmul (Fin (1 / 100)) guess)
                            then guess else fSigma s),
                 fDecomposition := ResizeTo n n (fDecomposition s)\<rparr>
      in ebind (seed_covariance (fProposalType s1) n (ResizeTo n n (fCurrentCov s1))) (\<lambda>c.
           Inr (let w = (if dless (fCovarianceWindow s1) (Fin 1000)
                         then Fin 10000000 else fCovarianceWindow s1)
                in s1\<lparr>fCurrentCov := c, fCovarianceWindow := w,
                       fAcceptance := fTargetAcceptance s1,
                       fAcceptanceTrials := dmin (Fin 10) (dmul (Fin (1 / 2)) (fAcceptanceWindow s1)),
                       fCentralPoint := fLastPoint s1,
                       fCentralPointTrials := dmin (Fin 10) (dmul (Fin (1 / 10)) w)\<rparr>)))"

text \<open>
  \<^verbatim>\<open>TDecompChol\<close> is ROOT's Cholesky decomposition: a parameter \<open>chol\<close> that returns the
  upper-triangular factor, or nothing when \<^verbatim>\<open>Decompose\<close> fails.

  \<^verbatim>\<open>UpdateProposal\<close> ends with a call of \<^verbatim>\<open>ResetProposal\<close> when both attempts fail, and
  \<^verbatim>\<open>ResetProposal\<close> ends with a call of \<^verbatim>\<open>UpdateProposal\<close>: the two call each other for
  as long as the decomposition fails, so \<open>None\<close> stands for a call that never returns.
\<close>

partial_function (option) UpdateProposal ::
  "(TMatrixD \<Rightarrow> TMatrixD option) \<Rightarrow> TProposeAdaptiveStep \<Rightarrow> (error + TProposeAdaptiveStep) option" where
  "UpdateProposal chol s =
     (let s1 = deweight s in
      case chol (fCurrentCov s1) of
        Some u \<Rightarrow> Some (Inr (s1\<lparr>fDecomposition := u\<rparr>))
      | None \<Rightarrow>
          (case repair_covariance s1 of
             Inl e \<Rightarrow> Some (Inl e)
           | Inr s2 \<Rightarrow>
               (case chol (fCurrentCov s2) of
                  Some u \<Rightarrow> Some (Inr (s2\<lparr>fDecomposition := u\<rparr>))
                | None \<Rightarrow>
                    (case ResetProposal_setup s2 of
                       Inl e \<Rightarrow> Some (Inl e)
                     | Inr s3 \<Rightarrow> UpdateProposal chol s3))))"

definition ResetProposal ::
  "(TMatrixD \<Rightarrow> TMatrixD option) \<Rightarrow> TProposeAdaptiveStep \<Rightarrow> (error + TProposeAdaptiveStep) option" where
  "ResetProposal chol s =
     (case ResetProposal_setup s of
        Inl e \<Rightarrow> Some (Inl e)
      | Inr s1 \<Rightarrow> UpdateProposal chol s1)"

subsection \<open>\<^verbatim>\<open>InitializeState\<close> and \<^verbatim>\<open>UpdateState\<close>\<close>

text \<open>
  \<^verbatim>\<open>InitializeState\<close> runs once. A dimensionality that was set before and differs from
  the size of the point is reported only.
\<close>

definition InitializeState ::
  "(TMatrixD \<Rightarrow> TMatrixD option) \<Rightarrow> Vector \<Rightarrow> dbl \<Rightarrow> TProposeAdaptiveStep
   \<Rightarrow> (error + TProposeAdaptiveStep) option" where
  "InitializeState chol current v s =
     (if fStateInitialized s then Some (Inr s)
      else
        (let s1 = s\<lparr>fStateInitialized := True\<rparr> in
         case (if length (fLastPoint s1) < 1 then SetDim (int (length current)) s1 else Inr s1) of
           Inl e \<Rightarrow> Some (Inl e)
         | Inr s2 \<Rightarrow>
             (case vcopy current (fLastPoint s2) of
                Inl e \<Rightarrow> Some (Inl e)
              | Inr lp \<Rightarrow>
                  (let w = dadd (dpow (dmul (Fin 1) (Fin (real (length lp)))) (Fin 2)) (Fin 1000) in
                   case d2i w of
                     Inl e \<Rightarrow> Some (Inl e)
                   | Inr k \<Rightarrow>
                       ResetProposal chol
                         (s2\<lparr>fLastValue := v, fLastPoint := lp, fAcceptanceWindow := w,
                             fNextUpdate := k\<rparr>)))))"

text \<open>
  The check whether the point moved. The right operand of \<^verbatim>\<open>||\<close> is evaluated only
  when the left one is false: index 1 of the two vectors is read exactly when the log
  likelihood compares equal to the last one.
\<close>

definition detect_accepted :: "Vector \<Rightarrow> dbl \<Rightarrow> TProposeAdaptiveStep \<Rightarrow> error + bool" where
  "detect_accepted current v s =
     (if dne v (fLastValue s) then Inr True
      else ebind (vget current 1) (\<lambda>c. ebind (vget (fLastPoint s) 1) (\<lambda>l. Inr (dne c l))))"

definition update_acceptance :: "bool \<Rightarrow> TProposeAdaptiveStep \<Rightarrow> TProposeAdaptiveStep" where
  "update_acceptance accepted s =
     (let a1 = dmul (fAcceptance s) (fAcceptanceTrials s);
          a2 = (if accepted then dadd a1 (Fin 1) else a1);
          a3 = ddiv a2 (dadd (fAcceptanceTrials s) (Fin 1))
      in s\<lparr>fAcceptance := a3,
            fAcceptanceTrials := dmin (fAcceptanceWindow s) (dadd (fAcceptanceTrials s) (Fin 1))\<rparr>)"

definition update_scale :: "TProposeAdaptiveStep \<Rightarrow> TProposeAdaptiveStep" where
  "update_scale s =
     s\<lparr>fSigma := dmul (fSigma s)
         (dpow (ddiv (fAcceptance s) (fTargetAcceptance s))
               (dmin (Fin (1 / 1000)) (ddiv (Fin (1 / 2)) (fAcceptanceWindow s))))\<rparr>"

definition update_center_at :: "Vector \<Rightarrow> nat \<Rightarrow> TProposeAdaptiveStep \<Rightarrow> error + TProposeAdaptiveStep" where
  "update_center_at current i s =
     ebind (vget (fCentralPoint s) i) (\<lambda>m.
     ebind (vget current i) (\<lambda>c.
       Inr (s\<lparr>fCentralPoint := (fCentralPoint s)
              [i := ddiv (dadd (dmul m (fCentralPointTrials s)) c)
                         (dadd (fCentralPointTrials s) (Fin 1))]\<rparr>)))"

definition update_center :: "Vector \<Rightarrow> TProposeAdaptiveStep \<Rightarrow> error + TProposeAdaptiveStep" where
  "update_center current s =
     ebind (efold (update_center_at current) [0..<length current] s) (\<lambda>s1.
       Inr (s1\<lparr>fCentralPointTrials :=
              dmin (fCovarianceWindow s1) (dadd (fCentralPointTrials s1) (Fin 1))\<rparr>))"

definition update_covariance_at ::
  "Vector \<Rightarrow> nat \<Rightarrow> nat \<Rightarrow> TProposeAdaptiveStep \<Rightarrow> error + TProposeAdaptiveStep" where
  "update_covariance_at current i j s =
     ebind (vget current i) (\<lambda>ci.
     ebind (vget (fCentralPoint s) i) (\<lambda>mi.
     ebind (vget current j) (\<lambda>cj.
     ebind (vget (fCentralPoint s) j) (\<lambda>mj.
       let v0 = mget (fCurrentCov s) i j;
           r = dmul (dsub ci mi) (dsub cj mj);
           v1 = ddiv (dadd (dmul v0 (fCovarianceTrials s)) r) (dadd (fCovarianceTrials s) (Fin 1))
       in Inr (s\<lparr>fCurrentCov :=
                 (if i = j then mset (fCurrentCov s) i j v1
                  else mset (mset (fCurrentCov s) j i v1) i j v1)\<rparr>)))))"

definition update_covariance :: "Vector \<Rightarrow> TProposeAdaptiveStep \<Rightarrow> error + TProposeAdaptiveStep" where
  "update_covariance current s =
     ebind (efold (\<lambda>i. efold (update_covariance_at current i) [0..<Suc i]) [0..<length current] s)
       (\<lambda>s1. Inr (s1\<lparr>fCovarianceTrials :=
                dmin (fCovarianceWindow s1) (dadd (fCovarianceTrials s1) (Fin 1))\<rparr>))"

text \<open>
  The periodic refresh: the counter is decremented only on an accepted step
  (\<^verbatim>\<open>accepted && (--fNextUpdate)<1\<close>).
\<close>

definition periodic_update ::
  "(TMatrixD \<Rightarrow> TMatrixD option) \<Rightarrow> bool \<Rightarrow> TProposeAdaptiveStep
   \<Rightarrow> (error + TProposeAdaptiveStep) option" where
  "periodic_update chol accepted s =
     (if accepted then
        (let s1 = s\<lparr>fNextUpdate := fNextUpdate s - 1\<rparr> in
         if fNextUpdate s1 < 1 then
           (case d2i (dadd (fAcceptanceWindow s1) (dmul (Fin (1 / 2)) (i2d (fSuccesses s1)))) of
              Inl e \<Rightarrow> Some (Inl e)
            | Inr k \<Rightarrow> UpdateProposal chol (s1\<lparr>fNextUpdate := k\<rparr>))
         else Some (Inr s1))
      else Some (Inr s))"

definition save_last :: "Vector \<Rightarrow> dbl \<Rightarrow> TProposeAdaptiveStep \<Rightarrow> error + TProposeAdaptiveStep" where
  "save_last current v s =
     ebind (vcopy current (fLastPoint s)) (\<lambda>lp. Inr (s\<lparr>fLastValue := v, fLastPoint := lp\<rparr>))"

definition UpdateState_body ::
  "(TMatrixD \<Rightarrow> TMatrixD option) \<Rightarrow> Vector \<Rightarrow> dbl \<Rightarrow> TProposeAdaptiveStep
   \<Rightarrow> (error + TProposeAdaptiveStep) option" where
  "UpdateState_body chol current v s0 =
     (let s = s0\<lparr>fTrials := fTrials s0 + 1\<rparr> in
      case detect_accepted current v s of
        Inl e \<Rightarrow> Some (Inl e)
      | Inr accepted \<Rightarrow>
          (let s1 = (if accepted then s\<lparr>fSuccesses := fSuccesses s + 1\<rparr> else s);
               s2 = update_scale (update_acceptance accepted s1)
           in case ebind (update_center current s2) (update_covariance current) of
                Inl e \<Rightarrow> Some (Inl e)
              | Inr s3 \<Rightarrow>
                  (case periodic_update chol accepted s3 of
                     None \<Rightarrow> None
                   | Some (Inl e) \<Rightarrow> Some (Inl e)
                   | Some (Inr s4) \<Rightarrow> Some (save_last current v s4))))"

definition UpdateState ::
  "(TMatrixD \<Rightarrow> TMatrixD option) \<Rightarrow> Vector \<Rightarrow> dbl \<Rightarrow> TProposeAdaptiveStep
   \<Rightarrow> (error + TProposeAdaptiveStep) option" where
  "UpdateState chol current v s =
     (case InitializeState chol current v s of
        None \<Rightarrow> None
      | Some (Inl e) \<Rightarrow> Some (Inl e)
      | Some (Inr s1) \<Rightarrow> UpdateState_body chol current v s1)"

subsection \<open>The proposal\<close>

text \<open>
  The inner loop of the Gaussian proposal for row \<open>i\<close>: every column that is not
  uniform receives \<^verbatim>\<open>fSigma*r*fDecomposition(i,j)\<close> with the one \<open>r\<close> of the row.
\<close>

definition propose_col :: "TProposeAdaptiveStep \<Rightarrow> dbl \<Rightarrow> nat \<Rightarrow> nat \<Rightarrow> Vector \<Rightarrow> error + Vector" where
  "propose_col s r i j p =
     ebind (vget (fProposalType s) j) (\<lambda>t.
       if type t = 1 then Inr p
       else ebind (vget p j) (\<lambda>pj.
              vset p j (dadd pj (dmul (dmul (fSigma s) r) (mget (fDecomposition s) i j)))))"

definition propose_row :: "TProposeAdaptiveStep \<Rightarrow> nat \<Rightarrow> Vector \<times> rng \<Rightarrow> error + Vector \<times> rng" where
  "propose_row s i st =
     (case st of (p, g) \<Rightarrow>
        ebind (vget (fProposalType s) i) (\<lambda>t.
          if type t = 1 then
            (let (u, g1) = Uniform2 (param1 t) (param2 t) g
             in ebind (vset p i u) (\<lambda>p1. Inr (p1, g1)))
          else
            (let (r, g1) = Gaus (Fin 0) (Fin 1) g
             in ebind (efold (propose_col s r i) [0..<length p] p) (\<lambda>p1. Inr (p1, g1)))))"

definition make_proposal ::
  "TProposeAdaptiveStep \<Rightarrow> Vector \<Rightarrow> Vector \<Rightarrow> rng \<Rightarrow> error + Vector \<times> rng" where
  "make_proposal s current proposal g =
     ebind (vcopy current proposal) (\<lambda>p0.
       efold (propose_row s) [0..<length p0] (p0, g))"

text \<open>\<^verbatim>\<open>TProposeAdaptiveStep::operator()\<close>.\<close>

definition TProposeAdaptiveStep_call ::
  "(TMatrixD \<Rightarrow> TMatrixD option) \<Rightarrow> TProposeAdaptiveStep proposal" where
  "TProposeAdaptiveStep_call chol s g proposal current v =
     (if length proposal \<noteq> length current then Some (Inl Terminated)
      else
        (case UpdateState chol current v s of
           None \<Rightarrow> None
         | Some (Inl e) \<Rightarrow> Some (Inl e)
         | Some (Inr s1) \<Rightarrow>
             Some (ebind (make_proposal s1 current proposal g) (\<lambda>(p, g1). Inr (s1, g1, p)))))"

subsection \<open>The proposal in closed form\<close>

text \<open>
  What the loops of \<^verbatim>\<open>operator()\<close> compute, written without the loops. The rows are
  processed in order; a row of type 1 is uniform and every other row is Gaussian. A
  Gaussian row \<open>i\<close> draws the normal deviate whose place on the tape is the number of
  Gaussian rows before \<open>i\<close>, a uniform row draws the raw deviate whose place is the number
  of uniform rows before it. After \<open>k\<close> rows a Gaussian column \<open>j\<close> holds the current value
  plus \<^verbatim>\<open>fSigma*r*fDecomposition(i,j)\<close> for every Gaussian row \<open>i < k\<close>, added in the
  order of the rows.
\<close>

definition gaussian_rows :: "ProposalType list \<Rightarrow> nat \<Rightarrow> nat list" where
  "gaussian_rows ts k = filter (\<lambda>i. type (ts ! i) \<noteq> 1) [0..<k]"

definition uniform_rows :: "ProposalType list \<Rightarrow> nat \<Rightarrow> nat list" where
  "uniform_rows ts k = filter (\<lambda>i. type (ts ! i) = 1) [0..<k]"

definition row_normal :: "rng \<Rightarrow> ProposalType list \<Rightarrow> nat \<Rightarrow> dbl" where
  "row_normal g ts i = Fin (gaus_tape g (gaus_pos g + length (gaussian_rows ts i)))"

definition row_uniform :: "rng \<Rightarrow> ProposalType list \<Rightarrow> nat \<Rightarrow> dbl" where
  "row_uniform g ts i =
     fadd (param1 (ts ! i))
       (fmul (fsub (param2 (ts ! i)) (param1 (ts ! i)))
          (Fin (rndm_tape g (rndm_pos g + length (uniform_rows ts i)))))"

definition correlated_sum ::
  "TProposeAdaptiveStep \<Rightarrow> rng \<Rightarrow> nat \<Rightarrow> dbl \<Rightarrow> nat \<Rightarrow> dbl" where
  "correlated_sum s g k x j =
     foldl (\<lambda>acc i. dadd acc
              (dmul (dmul (fSigma s) (row_normal g (fProposalType s) i)) (mget (fDecomposition s) i j)))
       x (gaussian_rows (fProposalType s) k)"

definition proposal_after :: "TProposeAdaptiveStep \<Rightarrow> rng \<Rightarrow> Vector \<Rightarrow> nat \<Rightarrow> Vector" where
  "proposal_after s g current k =
     map (\<lambda>j. if type (fProposalType s ! j) = 1
               then (if j < k then row_uniform g (fProposalType s) j else current ! j)
               else correlated_sum s g k (current ! j) j)
       [0..<length current]"

definition rng_after :: "rng \<Rightarrow> ProposalType list \<Rightarrow> nat \<Rightarrow> rng" where
  "rng_after g ts k =
     g\<lparr>rndm_pos := rndm_pos g + length (uniform_rows ts k),
       gaus_pos := gaus_pos g + length (gaussian_rows ts k)\<rparr>"

section \<open>Example inputs\<close>

text \<open>
  Concrete likelihoods, random tapes and sampler states on which the theorems below are
  run. \<^verbatim>\<open>TDummyLogLikelihood\<close> is the likelihood of the header's documentation, the sum
  of \<^verbatim>\<open>-0.5*x*x\<close> over the point; the second likelihood is flat where every coordinate
  is non-negative and \<open>-\<infinity>\<close> elsewhere.
\<close>

definition TDummyLogLikelihood :: "Vector \<Rightarrow> dbl" where
  "TDummyLogLikelihood point =
     fold (\<lambda>x l. dadd l (dmul (dmul (dneg (Fin (1 / 2))) x) x)) point (Fin 0)"

definition TFlatPositiveLikelihood :: "Vector \<Rightarrow> dbl" where
  "TFlatPositiveLikelihood point = (if list_ex (\<lambda>x. dless x (Fin 0)) point then MInf else Fin 0)"

text \<open>A random source that always draws the same two deviates, and one that reads lists.\<close>

definition constant_rng :: "real \<Rightarrow> real \<Rightarrow> rng" where
  "constant_rng u z = \<lparr>rndm_tape = (\<lambda>k. u), gaus_tape = (\<lambda>k. z), rndm_pos = 0, gaus_pos = 0\<rparr>"

definition list_rng :: "real list \<Rightarrow> real list \<Rightarrow> rng" where
  "list_rng us zs =
     \<lparr>rndm_tape = (\<lambda>k. if k < length us then us ! k else 0),
      gaus_tape = (\<lambda>k. if k < length zs then zs ! k else 0),
      rndm_pos = 0, gaus_pos = 0\<rparr>"

text \<open>A chain with the fixed-width proposal and an output tree, started at \<open>x\<close>.\<close>

definition simple_chain :: "(Vector \<Rightarrow> dbl) \<Rightarrow> Vector \<Rightarrow> TProposeSimpleStep TSimpleMCMC" where
  "simple_chain L x =
     Start L x True (TSimpleMCMC_new TProposeSimpleStep_new (Some True) (Fin 0) (Fin 0))"

text \<open>
  A decomposition for the examples: it factors a diagonal matrix with a positive
  diagonal and fails on every other matrix.
\<close>

definition chol_diagonal :: "TMatrixD \<Rightarrow> TMatrixD option" where
  "chol_diagonal m =
     (let n = length m in
      if list_all (\<lambda>i. list_all (\<lambda>j. i = j \<or> mget m i j = Fin 0) [0..<n]) [0..<n]
         \<and> list_all (\<lambda>i. dless (Fin 0) (mget m i i)) [0..<n]
      then Some (map (\<lambda>i. map (\<lambda>j. if i = j then dsqrt (mget m i i) else Fin 0) [0..<n]) [0..<n])
      else None)"

text \<open>
  Proposal objects: as constructed; a running one-dimensional one; one with the dimension
  set to two and the first one uniform on \<open>[-5, 5)\<close>; and a running three-dimensional
  one whose second dimension is uniform and whose decomposition couples the first and
  the third.
\<close>

definition adaptive_new :: TProposeAdaptiveStep where
  "adaptive_new = TProposeAdaptiveStep_new (Fin 0) (Fin 0) (Fin 0)"

definition adaptive_1d_run :: TProposeAdaptiveStep where
  "adaptive_1d_run =
     \<lparr>fLastPoint = [Fin 0], fLastValue = Fin 0,
      fCentralPoint = [Fin 0], fCentralPointTrials = Fin 10,
      fCurrentCov = [[Fin 1]],
      fCovarianceTrials = Fin 1000, fCovarianceWindow = Fin 10000000,
      fDecomposition = [[Fin 1]],
      fProposalType = [ProposalType_new],
      fTrials = 20, fSuccesses = 8, fNextUpdate = 1000,
      fAcceptance = Fin (44 / 100), fAcceptanceTrials = Fin 100,
      fAcceptanceWindow = Fin 1001, fTargetAcceptance = Fin (44 / 100), fSigma = Fin 1,
      fStateInitialized = True\<rparr>"

definition adaptive_2d :: TProposeAdaptiveStep where
  "adaptive_2d =
     (case SetDim 2 adaptive_new of
        Inr s \<Rightarrow> SetUniform 0 (Fin (- 5)) (Fin 5) s
      | Inl e \<Rightarrow> adaptive_new)"

definition adaptive_3d :: TProposeAdaptiveStep where
  "adaptive_3d =
     \<lparr>fLastPoint = [Fin 0, Fin 0, Fin 0], fLastValue = Fin 0,
      fCentralPoint = [Fin 0, Fin 0, Fin 0], fCentralPointTrials = Fin 10,
      fCurrentCov = [[Fin 1, Fin 0, Fin (1 / 2)], [Fin 0, Fin 1, Fin 0], [Fin (1 / 2), Fin 0, Fin (5 / 4)]],
      fCovarianceTrials = Fin 1000, fCovarianceWindow = Fin 10000000,
      fDecomposition = [[Fin 1, Fin 0, Fin (1 / 2)], [Fin 0, Fin 1, Fin 0], [Fin 0, Fin 0, Fin 1]],
      fProposalType = [ProposalType_new, \<lparr>type = 1, param1 = Fin (- 5), param2 = Fin 5\<rparr>,
                       ProposalType_new],
      fTrials = 20, fSuccesses = 8, fNextUpdate = 1000,
      fAcceptance = Fin (4344 / 10000), fAcceptanceTrials = Fin 100,
      fAcceptanceWindow = Fin 1009, fTargetAcceptance = Fin (44 / 100), fSigma = Fin (1 / 2),
      fStateInitialized = True\<rparr>"

text \<open>
  A running two-dimensional proposal with two uniform dimensions and a correlated
  covariance, which the decomposition of the examples does not factor.
\<close>

definition adaptive_stuck :: TProposeAdaptiveStep where
  "adaptive_stuck =
     \<lparr>fLastPoint = [Fin 0, Fin 0], fLastValue = Fin 0,
      fCentralPoint = [Fin 0, Fin 0], fCentralPointTrials = Fin 10,
      fCurrentCov = [[Fin 1, Fin (1 / 2)], [Fin (1 / 2), Fin 1]],
      fCovarianceTrials = Fin 50000, fCovarianceWindow = Fin 10000000,
      fDecomposition = [[Fin 1, Fin 0], [Fin 0, Fin 1]],
      fProposalType = [\<lparr>type = 1, param1 = Fin (- 5), param2 = Fin 5\<rparr>,
                       \<lparr>type = 1, param1 = Fin (- 5), param2 = Fin 5\<rparr>],
      fTrials = 20, fSuccesses = 8, fNextUpdate = 1000,
      fAcceptance = Fin (44 / 100), fAcceptanceTrials = Fin 20000,
      fAcceptanceWindow = Fin 1004, fTargetAcceptance = Fin (44 / 100), fSigma = Fin (1 / 2),
      fStateInitialized = True\<rparr>"

text \<open>
  Two proposal objects as the interface builds them: constructed, the dimension set to
  two and the first one uniform, on \<open>[1, 2)\<close> and on \<^verbatim>\<open>[2^32, 2^32 + 1)\<close>.
\<close>

definition adaptive_unit :: TProposeAdaptiveStep where
  "adaptive_unit =
     (case SetDim 2 adaptive_new of
        Inr s \<Rightarrow> SetUniform 0 (Fin 1) (Fin 2) s
      | Inl e \<Rightarrow> adaptive_new)"

definition adaptive_wide :: TProposeAdaptiveStep where
  "adaptive_wide =
     (case SetDim 2 adaptive_new of
        Inr s \<Rightarrow> SetUniform 0 (Fin (2 ^ 32)) (Fin (2 ^ 32 + 1)) s
      | Inl e \<Rightarrow> adaptive_new)"

text \<open>A chain with the adaptive proposal in the three-dimensional state, started at \<open>(1, 2, 3)\<close>.\<close>

definition adaptive_chain :: "TProposeAdaptiveStep TSimpleMCMC" where
  "adaptive_chain =
     Start TDummyLogLikelihood [Fin 1, Fin 2, Fin 3] True
       (TSimpleMCMC_new adaptive_3d (Some True) (Fin 0) (Fin 0))"

text \<open>A call returns a value: it returns, and not with an error.\<close>

definition returns_value :: "(error + 'a) option \<Rightarrow> bool" where
  "returns_value r = (case r of Some (Inr x) \<Rightarrow> True | _ \<Rightarrow> False)"

text \<open>The proposed point of a call of a proposal; empty when the call returns none.\<close>

definition proposed_point :: "(error + 's \<times> rng \<times> Vector) option \<Rightarrow> Vector" where
  "proposed_point r = (case r of Some (Inr (s, g, p)) \<Rightarrow> p | _ \<Rightarrow> [])"

section \<open>The error monad and the loops\<close>

lemma ebind_Inr [simp]: "ebind (Inr v) f = f v" by (simp add: ebind_def)

lemma ebind_Inl [simp]: "ebind (Inl e) f = Inl e" by (simp add: ebind_def)

lemma efold_append: "efold f (xs @ ys) s = ebind (efold f xs s) (efold f ys)"
  by (induction xs arbitrary: s) (auto simp: ebind_def split: sum.splits)

lemma efold_snoc: "efold f (xs @ [x]) s = ebind (efold f xs s) (f x)"
  by (induction xs arbitrary: s) (auto simp: ebind_def split: sum.splits)

lemma efold_preserves:
  assumes "\<And>i a b. f i a = Inr b \<Longrightarrow> P a \<Longrightarrow> P b"
  shows "efold f xs a = Inr b \<Longrightarrow> P a \<Longrightarrow> P b"
proof (induction xs arbitrary: a)
  case Nil
  then show ?case by simp
next
  case (Cons x xs)
  then obtain c where c: "f x a = Inr c" "efold f xs c = Inr b"
    by (auto simp: ebind_def split: sum.splits)
  from assms [OF c(1) Cons.prems(2)] Cons.IH [OF c(2)] show ?case by simp
qed

lemma constant_rng_sel [simp]:
  "rndm_tape (constant_rng u z) = (\<lambda>k. u)" "gaus_tape (constant_rng u z) = (\<lambda>k. z)"
  "rndm_pos (constant_rng u z) = 0" "gaus_pos (constant_rng u z) = 0"
  by (simp_all add: constant_rng_def)

section \<open>Properties of the rounding\<close>

text \<open>
  The rounding is monotone, it leaves a double as it is, and every double is a multiple
  of the smallest one. For doubles \<open>lo < hi\<close> whose difference does not overflow and a
  deviate that is a double in \<open>[0, 1)\<close>, the rounded \<^verbatim>\<open>lo + (hi - lo)*u\<close> lies in the
  closed interval from \<open>lo\<close> to \<open>hi\<close>. The upper bound is reached.
\<close>

subsection \<open>Rounding to an integer\<close>

lemma rne_of_int: "rne (of_int n) = n"
  by (simp add: rne_def)

lemma rne_floor_le: "\<lfloor>r\<rfloor> \<le> rne r"
  by (simp add: rne_def Let_def)

lemma rne_le_floor: "rne r \<le> \<lfloor>r\<rfloor> + 1"
  by (simp add: rne_def Let_def)

lemma rne_mono:
  assumes "r \<le> s" shows "rne r \<le> rne s"
proof (cases "\<lfloor>r\<rfloor> = \<lfloor>s\<rfloor>")
  case True
  with assms show ?thesis by (auto simp: rne_def Let_def)
next
  case False
  with assms have "\<lfloor>r\<rfloor> < \<lfloor>s\<rfloor>" using floor_mono [of r s] by linarith
  with rne_le_floor [of r] rne_floor_le [of s] show ?thesis by linarith
qed

lemma rne_le: "r \<le> of_int n \<Longrightarrow> rne r \<le> n"
  using rne_mono [of r "of_int n"] by (simp add: rne_of_int)

lemma rne_ge: "of_int n \<le> r \<Longrightarrow> n \<le> rne r"
  using rne_mono [of "of_int n" r] by (simp add: rne_of_int)

lemma rne_below_half:
  assumes "r < of_int n - 1 / 2" shows "rne r \<le> n - 1"
proof -
  have "r < of_int n" using assms by linarith
  then have "\<lfloor>r\<rfloor> < n" by (simp add: floor_less_iff)
  then have "\<lfloor>r\<rfloor> \<le> n - 1" by simp
  show ?thesis
  proof (cases "\<lfloor>r\<rfloor> = n - 1")
    case True
    with assms have "r - of_int \<lfloor>r\<rfloor> < 1 / 2" by simp
    with True show ?thesis by (simp add: rne_def Let_def)
  next
    case False
    with \<open>\<lfloor>r\<rfloor> \<le> n - 1\<close> rne_le_floor [of r] show ?thesis by linarith
  qed
qed

lemma rne_half_le: "of_int (rne r) - 1 / 2 \<le> r"
proof -
  have "of_int \<lfloor>r\<rfloor> \<le> r" by simp
  moreover have "rne r = \<lfloor>r\<rfloor> \<or> (rne r = \<lfloor>r\<rfloor> + 1 \<and> 1 / 2 \<le> r - of_int \<lfloor>r\<rfloor>)"
    by (simp add: rne_def Let_def)
  ultimately show ?thesis by (elim disjE conjE; simp; linarith)
qed

subsection \<open>The exponent of a real\<close>

lemma pow2_floor_log:
  assumes "0 < a"
  shows "2 powi \<lfloor>log 2 a\<rfloor> \<le> a" and "a < 2 powi (\<lfloor>log 2 a\<rfloor> + 1)"
proof -
  have "2 powr real_of_int \<lfloor>log 2 a\<rfloor> \<le> a \<and> a < 2 powr (real_of_int \<lfloor>log 2 a\<rfloor> + 1)"
    using floor_log_eq_powr_iff [of a 2 "\<lfloor>log 2 a\<rfloor>"] assms by simp
  moreover have "real_of_int \<lfloor>log 2 a\<rfloor> + 1 = real_of_int (\<lfloor>log 2 a\<rfloor> + 1)" by simp
  ultimately show "2 powi \<lfloor>log 2 a\<rfloor> \<le> a" and "a < 2 powi (\<lfloor>log 2 a\<rfloor> + 1)"
    by (simp_all only: powr_real_of_int' [where x = "2::real", simplified])
qed

lemma floor_log_pow2:
  assumes "0 < a" and "2 powi k \<le> a" and "a < 2 powi (k + 1)"
  shows "\<lfloor>log 2 a\<rfloor> = k"
proof -
  have "real_of_int k + 1 = real_of_int (k + 1)" by simp
  then have "2 powr real_of_int k \<le> a \<and> a < 2 powr (real_of_int k + 1)"
    using assms by (simp only: powr_real_of_int' [where x = "2::real", simplified])
  then show ?thesis
    using floor_log_eq_powr_iff [of a 2 k] assms by simp
qed

lemma fexp_ge: "- 1074 \<le> fexp a"
  by (simp add: fexp_def)

lemma fexp_upper:
  assumes "0 < a" shows "a < 2 powi (fexp a + 53)"
proof -
  have "a < 2 powi (\<lfloor>log 2 a\<rfloor> + 1)" using pow2_floor_log(2) [OF assms] .
  also have "\<dots> \<le> 2 powi (fexp a + 53)"
    by (rule power_int_increasing) (simp_all add: fexp_def)
  finally show ?thesis .
qed

lemma fexp_lower:
  assumes "0 < a" and "- 1074 < fexp a" shows "2 powi (fexp a + 52) \<le> a"
proof -
  from assms(2) have "fexp a + 52 = \<lfloor>log 2 a\<rfloor>" by (simp add: fexp_def max_def split: if_splits)
  with pow2_floor_log(1) [OF assms(1)] show ?thesis by simp
qed

lemma fexp_eq:
  assumes "0 < a" and "2 powi k \<le> a" and "a < 2 powi (k + 1)"
  shows "fexp a = max (k - 52) (- 1074)"
  using floor_log_pow2 [OF assms] by (simp add: fexp_def)

lemma fexp_mono:
  assumes "0 < a" and "a \<le> b" shows "fexp a \<le> fexp b"
proof -
  have "log 2 a \<le> log 2 b" using assms by simp
  then have "\<lfloor>log 2 a\<rfloor> \<le> \<lfloor>log 2 b\<rfloor>" by (rule floor_mono)
  then show ?thesis by (simp add: fexp_def)
qed


subsection \<open>Rounding is monotone and keeps a double\<close>

lemma rabs_zero: "rabs 0 = 0"
  by (simp add: rabs_def rne_def)

lemma rabs_nonneg:
  assumes "0 \<le> a" shows "0 \<le> rabs a"
proof -
  have "0 \<le> a / 2 powi fexp a" using assms by simp
  then have "0 \<le> rne (a / 2 powi fexp a)" using rne_ge [of 0] by simp
  then show ?thesis by (simp add: rabs_def)
qed

lemma rabs_multiple:
  assumes "a = of_int z * 2 powi fexp a" shows "rabs a = a"
proof -
  have "a / 2 powi fexp a = of_int z"
    using assms by (metis nonzero_eq_divide_eq power_int_eq_0_iff zero_neq_numeral)
  then show ?thesis using assms by (simp add: rabs_def rne_of_int)
qed

lemma rabs_id:
  assumes "0 \<le> m" and "m \<le> 2 ^ 53" and "- 1074 \<le> e"
  shows "rabs (of_int m * 2 powi e) = of_int m * 2 powi e"
proof (cases "m = 0")
  case True
  then show ?thesis by (simp add: rabs_zero)
next
  case False
  define a :: real where "a = of_int m * 2 powi e"
  define f where "f = fexp a"
  from False assms(1) have mpos: "0 < m" by simp
  then have apos: "0 < a" by (simp add: a_def)
  have mle: "real_of_int m \<le> 2 ^ 53" using assms(2) by simp
  have ale: "a \<le> 2 powi (e + 53)"
  proof -
    have "a \<le> 2 ^ 53 * 2 powi e" unfolding a_def using mle by (intro mult_right_mono) simp_all
    also have "\<dots> = 2 powi (e + 53)" by (simp add: power_int_add)
    finally show ?thesis .
  qed
  have "\<exists>z::int. a = of_int z * 2 powi f"
  proof (cases "f \<le> e")
    case True
    have "2 powi e = (2::real) powi (e - f) * 2 powi f" by (simp flip: power_int_add)
    also have "(2::real) powi (e - f) = 2 ^ nat (e - f)" using True by (simp add: power_int_def)
    finally have "a = of_int (m * 2 ^ nat (e - f)) * 2 powi f" by (simp add: a_def)
    then show ?thesis by blast
  next
    case False
    then have flow: "- 1074 < f" using assms(3) by simp
    have "2 powi (f + 52) \<le> a" using fexp_lower [OF apos] flow by (simp add: f_def)
    with ale have le: "(2::real) powi (f + 52) \<le> 2 powi (e + 53)" by simp
    have "f + 52 \<le> e + 53"
    proof (rule ccontr)
      assume "\<not> f + 52 \<le> e + 53"
      then have "(2::real) powi (e + 53) < 2 powi (f + 52)"
        by (intro power_int_strict_increasing) simp_all
      with le show False by simp
    qed
    with False have fe: "f = e + 1" by simp
    have "2 powi (e + 53) \<le> a" using \<open>2 powi (f + 52) \<le> a\<close> fe by (simp add: add.commute)
    with ale have "a = 2 powi (e + 53)" by simp
    also have "\<dots> = 2 ^ 52 * (2::real) powi (e + 1)"
    proof -
      have "(2::real) powi (e + 53) = 2 powi ((e + 1) + 52)" by (simp add: algebra_simps)
      also have "\<dots> = 2 powi (e + 1) * 2 powi 52" by (rule power_int_add) simp
      finally show ?thesis by simp
    qed
    finally have "a = of_int (2 ^ 52) * 2 powi f" using fe by simp
    then show ?thesis by blast
  qed
  then obtain z :: int where "a = of_int z * 2 powi fexp a" unfolding f_def by blast
  then have "rabs a = a" by (rule rabs_multiple)
  then show ?thesis by (simp add: a_def)
qed

lemma rabs_le_pow:
  assumes "0 < a" shows "rabs a \<le> 2 powi (fexp a + 53)"
proof -
  have "a / 2 powi fexp a < 2 powi (fexp a + 53) / 2 powi fexp a"
    using fexp_upper [OF assms] by (simp add: divide_strict_right_mono)
  also have "\<dots> = 2 ^ 53" by (simp add: power_int_add)
  finally have "a / 2 powi fexp a \<le> of_int (2 ^ 53)" by simp
  then have "rne (a / 2 powi fexp a) \<le> 2 ^ 53" by (rule rne_le)
  then have "real_of_int (rne (a / 2 powi fexp a)) \<le> 2 ^ 53"
    by simp
  then have "rabs a \<le> 2 ^ 53 * 2 powi fexp a"
    unfolding rabs_def by (intro mult_right_mono) simp_all
  then show ?thesis by (simp add: power_int_add mult.commute)
qed

lemma rabs_ge_pow:
  assumes "0 < a" and "- 1074 < fexp a" shows "2 powi (fexp a + 52) \<le> rabs a"
proof -
  have "2 powi (fexp a + 52) / 2 powi fexp a \<le> a / 2 powi fexp a"
    using fexp_lower [OF assms] by (simp add: divide_right_mono)
  moreover have "2 powi (fexp a + 52) / 2 powi fexp a = (2::real) ^ 52" by (simp add: power_int_add)
  ultimately have "of_int (2 ^ 52) \<le> a / 2 powi fexp a" by simp
  then have "2 ^ 52 \<le> rne (a / 2 powi fexp a)" by (rule rne_ge)
  then have "2 ^ 52 \<le> real_of_int (rne (a / 2 powi fexp a))"
    by simp
  then have "2 ^ 52 * 2 powi fexp a \<le> rabs a"
    unfolding rabs_def by (intro mult_right_mono) simp_all
  then show ?thesis by (simp add: power_int_add mult.commute)
qed

lemma rabs_mono:
  assumes "0 \<le> a" and "a \<le> b" shows "rabs a \<le> rabs b"
proof (cases "a = 0")
  case True
  with assms rabs_nonneg [of b] show ?thesis by (simp add: rabs_zero)
next
  case False
  with assms have apos: "0 < a" and bpos: "0 < b" by simp_all
  have fle: "fexp a \<le> fexp b" using fexp_mono [OF apos assms(2)] .
  show ?thesis
  proof (cases "fexp a = fexp b")
    case True
    have "a / 2 powi fexp b \<le> b / 2 powi fexp b" using assms(2) by (simp add: divide_right_mono)
    then have "rne (a / 2 powi fexp b) \<le> rne (b / 2 powi fexp b)" by (rule rne_mono)
    then have "real_of_int (rne (a / 2 powi fexp b)) \<le> real_of_int (rne (b / 2 powi fexp b))" by simp
    then show ?thesis unfolding rabs_def True by (intro mult_right_mono) simp_all
  next
    case False
    with fle have lt: "fexp a < fexp b" by simp
    then have "- 1074 < fexp b" using fexp_ge [of a] by simp
    have "rabs a \<le> 2 powi (fexp a + 53)" using rabs_le_pow [OF apos] .
    also have "\<dots> \<le> 2 powi (fexp b + 52)" using lt by (intro power_int_increasing) simp_all
    also have "\<dots> \<le> rabs b" using rabs_ge_pow [OF bpos \<open>- 1074 < fexp b\<close>] .
    finally show ?thesis .
  qed
qed

lemma rnd_nonneg: "0 \<le> x \<Longrightarrow> rnd x = rabs x"
  by (cases "x = 0") (simp_all add: rnd_def rabs_zero)

lemma rnd_neg: "x < 0 \<Longrightarrow> rnd x = - rabs (- x)"
  by (simp add: rnd_def)

lemma rnd_mono:
  assumes "x \<le> y" shows "rnd x \<le> rnd y"
proof (cases "0 \<le> x")
  case True
  with assms show ?thesis by (simp add: rnd_nonneg rabs_mono)
next
  case x: False
  show ?thesis
  proof (cases "0 \<le> y")
    case True
    have "0 \<le> rabs (- x)" using x by (intro rabs_nonneg) simp
    moreover have "0 \<le> rabs y" using True by (rule rabs_nonneg)
    ultimately show ?thesis using x True by (simp add: rnd_nonneg rnd_neg)
  next
    case False
    with assms x have "rabs (- y) \<le> rabs (- x)" by (intro rabs_mono) simp_all
    with x False show ?thesis by (simp add: rnd_neg)
  qed
qed


lemma rne_quot_le:
  assumes "0 < a" shows "rne (a / 2 powi fexp a) \<le> 2 ^ 53"
proof -
  have "a / 2 powi fexp a < 2 powi (fexp a + 53) / 2 powi fexp a"
    using fexp_upper [OF assms] by (simp add: divide_strict_right_mono)
  also have "\<dots> = 2 ^ 53" by (simp add: power_int_add)
  finally have "a / 2 powi fexp a \<le> of_int (2 ^ 53)" by simp
  then show ?thesis by (rule rne_le)
qed

lemma rne_quot_ge:
  assumes "0 < a" and "- 1074 < fexp a" shows "2 ^ 52 \<le> rne (a / 2 powi fexp a)"
proof -
  have "2 powi (fexp a + 52) / 2 powi fexp a \<le> a / 2 powi fexp a"
    using fexp_lower [OF assms] by (simp add: divide_right_mono)
  moreover have "2 powi (fexp a + 52) / 2 powi fexp a = (2::real) ^ 52" by (simp add: power_int_add)
  ultimately have "of_int (2 ^ 52) \<le> a / 2 powi fexp a" by simp
  then show ?thesis by (rule rne_ge)
qed

lemma pow2_grid:
  assumes "- 1074 \<le> f" shows "(2::real) powi f = of_int (2 ^ nat (f + 1074)) * denorm_min"
proof -
  have "(2::real) powi f = 2 powi ((f + 1074) + (- 1074))" by simp
  also have "\<dots> = 2 powi (f + 1074) * 2 powi (- 1074)" by (rule power_int_add) simp
  also have "(2::real) powi (f + 1074) = 2 ^ nat (f + 1074)" using assms by (simp add: power_int_def)
  finally show ?thesis unfolding denorm_min_def by (simp only: of_int_power of_int_numeral)
qed

lemma rabs_grid: "\<exists>z::int. rabs a = of_int z * denorm_min"
proof -
  have "rabs a = of_int (rne (a / 2 powi fexp a) * 2 ^ nat (fexp a + 1074)) * denorm_min"
    unfolding rabs_def by (subst pow2_grid [OF fexp_ge]) simp
  then show ?thesis by blast
qed

lemma rnd_grid: "\<exists>z::int. rnd x = of_int z * denorm_min"
proof (cases "0 \<le> x")
  case True
  then show ?thesis using rabs_grid [of x] by (simp add: rnd_nonneg)
next
  case False
  obtain z :: int where "rabs (- x) = of_int z * denorm_min" using rabs_grid by blast
  with False have "rnd x = of_int (- z) * denorm_min" by (simp add: rnd_neg)
  then show ?thesis by blast
qed

lemma is_double_rnd: "is_double x \<Longrightarrow> rnd x = x"
  by (simp add: is_double_def round64_def Let_def split: if_splits)

lemma is_double_less: "is_double x \<Longrightarrow> \<bar>x\<bar> < 2 ^ 1024"
  by (simp add: is_double_def round64_def Let_def split: if_splits)

lemma is_double_grid:
  assumes "is_double x" shows "\<exists>z::int. x = of_int z * denorm_min"
  using rnd_grid [of x] is_double_rnd [OF assms] by simp

subsection \<open>The range of \<^verbatim>\<open>Uniform(a,b)\<close>\<close>

text \<open>
  The product of the rounded difference and a deviate of at most \<^verbatim>\<open>1 - 2^-53\<close> rounds to
  at most the exact difference. When the difference was rounded up, to \<open>n\<close> quanta, it
  is at least \<open>n - 1/2\<close> quanta, and the product is at most \<^verbatim>\<open>n - n/2^53\<close> quanta
  with \<^verbatim>\<open>n >= 2^52\<close>: it rounds to \<open>n - 1\<close> quanta or less, or it is \<open>n - 1/2\<close> quanta
  and a double of the binade below.
\<close>

lemma rnd_scaled_le:
  assumes lo: "is_double lo" and hi: "is_double hi" and lt: "lo < hi"
    and u0: "0 \<le> u" and u1: "u \<le> 1 - 1 / 2 ^ 53"
  shows "rnd (rnd (hi - lo) * u) \<le> hi - lo"
proof -
  define t where "t = hi - lo"
  define e where "e = fexp t"
  define q :: real where "q = 2 powi e"
  define n where "n = rne (t / q)"
  define d where "d = rabs t"
  have tpos: "0 < t" using lt by (simp add: t_def)
  have qpos: "0 < q" by (simp add: q_def)
  have d_eq: "d = of_int n * q" by (simp add: d_def rabs_def n_def q_def e_def)
  have rt: "rnd t = d" using tpos by (simp add: rnd_nonneg d_def)
  have n0: "0 \<le> n" using rne_ge [of 0 "t / q"] tpos qpos by (simp add: n_def)
  have n53: "n \<le> 2 ^ 53" using rne_quot_le [OF tpos] by (simp add: n_def q_def e_def)
  have elow: "- 1074 \<le> e" by (simp add: e_def fexp_ge)
  have d0: "0 \<le> d" using n0 qpos by (simp add: d_eq)
  have du0: "0 \<le> d * u" using d0 u0 by simp
  have rdu: "rnd (d * u) = rabs (d * u)" using du0 by (rule rnd_nonneg)
  have rd: "rabs d = d" unfolding d_eq q_def using n0 n53 elow by (rule rabs_id)
  have "rabs (d * u) \<le> t"
  proof (cases "d \<le> t")
    case True
    have "d * u \<le> d * 1" using d0 u1 by (intro mult_left_mono) simp_all
    then have "rabs (d * u) \<le> rabs d" using du0 by (intro rabs_mono) simp_all
    with rd True show ?thesis by simp
  next
    case False
    then have td: "t < d" by simp
    have ne: "e \<noteq> - 1074"
    proof
      assume e: "e = - 1074"
      obtain zl :: int where zl: "lo = of_int zl * denorm_min" using is_double_grid [OF lo] by blast
      obtain zh :: int where zh: "hi = of_int zh * denorm_min" using is_double_grid [OF hi] by blast
      have "2 powi fexp t = denorm_min" using e by (simp only: e_def [symmetric] denorm_min_def)
      moreover have "t = of_int (zh - zl) * denorm_min" by (simp add: t_def zl zh algebra_simps)
      ultimately have "t = of_int (zh - zl) * 2 powi fexp t" by simp
      then have "rabs t = t" by (rule rabs_multiple)
      with td show False by (simp add: d_def)
    qed
    with elow have egt: "- 1074 < e" by simp
    have n52: "2 ^ 52 \<le> n" using rne_quot_ge [OF tpos] egt by (simp add: n_def q_def e_def)
    have "real_of_int n - 1 / 2 \<le> t / q" unfolding n_def by (rule rne_half_le)
    then have "(real_of_int n - 1 / 2) * q \<le> t" using qpos by (simp add: pos_le_divide_eq)
    then have half: "q * (real_of_int n - 1 / 2) \<le> t" by (simp add: mult.commute)
    have "d * u \<le> d * (1 - 1 / 2 ^ 53)" using d0 u1 by (intro mult_left_mono) simp_all
    also have "\<dots> = q * (real_of_int n - real_of_int n / 2 ^ 53)" by (simp add: d_eq algebra_simps)
    finally have du: "d * u \<le> q * (real_of_int n - real_of_int n / 2 ^ 53)" .
    show ?thesis
    proof (cases "n = 2 ^ 52")
      case True
      then have rn: "real_of_int n = 2 ^ 52" by simp
      have w: "q * (real_of_int n - 1 / 2) = of_int (2 ^ 53 - 1) * 2 powi (e - 1)"
        by (simp add: rn q_def power_int_diff)
      have "d * u \<le> q * (real_of_int n - 1 / 2)" using du by (simp add: rn)
      then have "rabs (d * u) \<le> rabs (q * (real_of_int n - 1 / 2))" using du0 by (intro rabs_mono)
      also have "\<dots> = q * (real_of_int n - 1 / 2)"
        unfolding w using egt by (intro rabs_id) simp_all
      finally show ?thesis using half by simp
    next
      case False
      with n52 have "2 ^ 52 + 1 \<le> n" by simp
      then have rn: "2 ^ 52 + 1 \<le> real_of_int n"
        by simp
      have rn53: "real_of_int n \<le> 2 ^ 53" using n53 by simp
      have "real_of_int n - real_of_int n / 2 ^ 53 < real_of_int n - 1 / 2" using rn by simp
      then have "q * (real_of_int n - real_of_int n / 2 ^ 53) < q * (real_of_int n - 1 / 2)"
        using qpos by (simp only: mult_less_cancel_left_pos)
      with du have dul: "d * u < q * (real_of_int n - 1 / 2)" by simp
      have below: "q * (real_of_int n - 1) \<le> t"
      proof -
        have "q * (real_of_int n - 1) \<le> q * (real_of_int n - 1 / 2)"
          using qpos by simp
        with half show ?thesis by simp
      qed
      show ?thesis
      proof (cases "d * u < q * 2 ^ 52")
        case True
        have "rabs (d * u) \<le> rabs (of_int (2 ^ 52) * 2 powi e)"
          using du0 True by (intro rabs_mono) (simp_all add: q_def mult.commute)
        also have "\<dots> = of_int (2 ^ 52) * 2 powi e" using elow by (intro rabs_id) simp_all
        also have "\<dots> = q * 2 ^ 52" by (simp add: q_def)
        also have "\<dots> \<le> q * (real_of_int n - 1)"
          using qpos rn by simp
        finally show ?thesis using below by simp
      next
        case False
        then have ge: "q * 2 ^ 52 \<le> d * u" by simp
        moreover have "0 < q * 2 ^ 52" using qpos by simp
        ultimately have dupos: "0 < d * u" by simp
        have "q * (real_of_int n - 1 / 2) < q * 2 ^ 53"
          using qpos rn53 by simp
        with dul have "d * u < q * 2 ^ 53" by simp
        moreover have "q * 2 ^ 53 = 2 powi (e + 52 + 1)" by (simp add: q_def power_int_add)
        moreover have "q * 2 ^ 52 = 2 powi (e + 52)" by (simp add: q_def power_int_add)
        ultimately have "fexp (d * u) = max (e + 52 - 52) (- 1074)"
          using ge dupos by (intro fexp_eq) simp_all
        with elow have fe: "fexp (d * u) = e" by simp
        have "d * u / q < real_of_int n - 1 / 2"
          using dul qpos by (simp add: pos_divide_less_eq mult.commute)
        then have "rne (d * u / q) \<le> n - 1" by (rule rne_below_half)
        then have "real_of_int (rne (d * u / q)) \<le> real_of_int n - 1"
          by simp
        then have "real_of_int (rne (d * u / q)) * q \<le> (real_of_int n - 1) * q"
          using qpos by (intro mult_right_mono) simp_all
        then have "rabs (d * u) \<le> q * (real_of_int n - 1)"
          by (simp add: rabs_def fe q_def mult.commute)
        with below show ?thesis by simp
      qed
    qed
  qed
  then show ?thesis by (simp add: rt rdu t_def [symmetric])
qed


lemma round64_finite:
  assumes "\<bar>rnd x\<bar> < 2 ^ 1024" shows "round64 x = Fin (rnd x)"
  using assms by (simp add: round64_def Let_def)

lemma is_double_below_one:
  assumes "is_double u" and "u < 1" shows "u \<le> 1 - 1 / 2 ^ 53"
proof (cases "u < 1 / 2")
  case True
  then show ?thesis by simp
next
  case False
  then have upos: "0 < u" by simp
  have "fexp u = max (- 1 - 52) (- 1074)"
    using upos False assms(2) by (intro fexp_eq) (simp_all add: power_int_minus)
  then have fe: "fexp u = - 53" by simp
  define n where "n = rne (u / 2 powi (- 53))"
  have "rabs u = u" using is_double_rnd [OF assms(1)] upos by (simp add: rnd_nonneg)
  then have u: "u = real_of_int n / 2 ^ 53" by (simp add: rabs_def fe n_def power_int_minus field_simps)
  with assms(2) have "real_of_int n < 2 ^ 53" by simp
  then have "n < 2 ^ 53" by simp
  then have "n \<le> 2 ^ 53 - 1" by simp
  then have "real_of_int n \<le> 2 ^ 53 - 1"
    by simp
  then show ?thesis by (simp add: u field_simps)
qed

lemma Uniform_range:
  assumes lo: "is_double lo" and hi: "is_double hi" and lt: "lo < hi"
    and u0: "0 \<le> u" and u1: "u \<le> 1 - 1 / 2 ^ 53"
    and fin: "fsub (Fin hi) (Fin lo) \<noteq> PInf"
  shows "\<exists>x. fadd (Fin lo) (fmul (fsub (Fin hi) (Fin lo)) (Fin u)) = Fin x \<and> lo \<le> x \<and> x \<le> hi"
proof -
  define d where "d = rnd (hi - lo)"
  define p where "p = rnd (d * u)"
  define x where "x = rnd (lo + p)"
  have "0 \<le> hi - lo" using lt by simp
  then have d0: "0 \<le> d" unfolding d_def by (simp add: rnd_nonneg rabs_nonneg)
  have dlt: "\<bar>d\<bar> < 2 ^ 1024"
  proof (rule ccontr)
    assume "\<not> \<bar>d\<bar> < 2 ^ 1024"
    with d0 have "2 ^ 1024 \<le> \<bar>d\<bar>" and "0 < d" by simp_all
    then have "fsub (Fin hi) (Fin lo) = PInf"
      unfolding fsub_def dsub_def by (simp add: round64_def Let_def d_def [symmetric])
    with fin show False by simp
  qed
  have sub: "fsub (Fin hi) (Fin lo) = Fin d"
    unfolding fsub_def dsub_def using dlt by (simp add: round64_finite d_def)
  have du0: "0 \<le> d * u" using d0 u0 by simp
  then have p0: "0 \<le> p" unfolding p_def by (simp add: rnd_nonneg rabs_nonneg)
  have "d * u \<le> d * 1" using d0 u1 by (intro mult_left_mono) simp_all
  then have "p \<le> rnd d" unfolding p_def by (intro rnd_mono) simp
  moreover have "rnd d \<le> d"
  proof -
    have "rnd d = d"
    proof -
      let ?t = "hi - lo"
      have tpos: "0 < ?t" using lt by simp
      have "d = of_int (rne (?t / 2 powi fexp ?t)) * 2 powi fexp ?t"
        using tpos by (simp add: d_def rnd_nonneg rabs_def)
      moreover have "0 \<le> rne (?t / 2 powi fexp ?t)" using rne_ge [of 0 "?t / 2 powi fexp ?t"] tpos by simp
      ultimately have "rabs d = d"
        using rabs_id [of "rne (?t / 2 powi fexp ?t)" "fexp ?t"] rne_quot_le [OF tpos] fexp_ge [of ?t]
        by simp
      with d0 show ?thesis by (simp add: rnd_nonneg)
    qed
    then show ?thesis by simp
  qed
  ultimately have pd: "p \<le> d" by simp
  with p0 dlt have plt: "\<bar>p\<bar> < 2 ^ 1024" by simp
  have mul: "fmul (Fin d) (Fin u) = Fin p"
    unfolding fmul_def using plt by (simp add: round64_finite p_def)
  have pt: "p \<le> hi - lo" unfolding p_def d_def using lo hi lt u0 u1 by (rule rnd_scaled_le)
  have "rnd lo \<le> x" unfolding x_def using p0 by (intro rnd_mono) simp
  then have xlo: "lo \<le> x" by (simp add: is_double_rnd [OF lo])
  have "x \<le> rnd hi" unfolding x_def using pt by (intro rnd_mono) simp
  then have xhi: "x \<le> hi" by (simp add: is_double_rnd [OF hi])
  have "\<bar>x\<bar> < 2 ^ 1024" using xlo xhi is_double_less [OF lo] is_double_less [OF hi] by simp
  then have add: "fadd (Fin lo) (Fin p) = Fin x"
    unfolding fadd_def by (simp add: round64_finite x_def)
  have "fadd (Fin lo) (fmul (fsub (Fin hi) (Fin lo)) (Fin u)) = Fin x"
    by (simp add: sub mul add)
  with xlo xhi show ?thesis by simp
qed

subsection \<open>Draws on concrete bounds\<close>

lemma round64_exact:
  assumes "\<bar>m\<bar> \<le> 2 ^ 53" and "- 1074 \<le> e" and "\<bar>of_int m * 2 powi e\<bar> < (2::real) ^ 1024"
  shows "round64 (of_int m * 2 powi e) = Fin (of_int m * 2 powi e)"
proof -
  have "rnd (of_int m * 2 powi e) = of_int m * 2 powi e"
  proof (cases "0 \<le> m")
    case True
    then have "0 \<le> real_of_int m * 2 powi e" by simp
    then show ?thesis using True assms by (simp add: rnd_nonneg rabs_id)
  next
    case False
    then have neg: "real_of_int m * 2 powi e < 0" by (simp add: mult_neg_pos)
    have "rabs (of_int (- m) * 2 powi e) = of_int (- m) * 2 powi e"
      using False assms by (intro rabs_id) simp_all
    then show ?thesis using neg by (simp add: rnd_neg)
  qed
  with assms(3) show ?thesis by (simp add: round64_finite)
qed

lemma round64_int:
  assumes "\<bar>m\<bar> \<le> 2 ^ 53" shows "round64 (of_int m) = Fin (of_int m)"
proof -
  have "\<bar>real_of_int m\<bar> \<le> 2 ^ 53" using assms by simp
  then have "\<bar>real_of_int m\<bar> < 2 ^ 1024" by simp
  then show ?thesis using round64_exact [of m 0] assms by simp
qed

lemma round64_half:
  assumes "\<bar>m\<bar> \<le> 2 ^ 53" shows "round64 (of_int m / 2) = Fin (of_int m / 2)"
proof -
  have "\<bar>real_of_int m\<bar> \<le> 2 ^ 53" using assms by simp
  then have "\<bar>real_of_int m / 2\<bar> < 2 ^ 1024" by simp
  then show ?thesis using round64_exact [of m "- 1"] assms by simp
qed

lemma is_double_int: "\<bar>m\<bar> \<le> 2 ^ 53 \<Longrightarrow> is_double (of_int m)"
  by (simp add: is_double_def round64_int)

lemma rabs_binade:
  assumes "0 < a" and "2 powi k \<le> a" and "a < 2 powi (k + 1)" and "- 1022 \<le> k"
  shows "rabs a = of_int (rne (a / 2 powi (k - 52))) * 2 powi (k - 52)"
proof -
  have "fexp a = k - 52" using fexp_eq [OF assms(1-3)] assms(4) by simp
  then show ?thesis by (simp add: rabs_def)
qed

lemma is_double_half: "\<bar>m\<bar> \<le> 2 ^ 53 \<Longrightarrow> is_double (of_int m / 2)"
  by (simp add: is_double_def round64_half)

lemma is_double_quarter: "is_double (1 / 4)"
  using round64_exact [of 1 "- 2"] by (simp add: is_double_def)

lemma Uniform_5_half: "fadd (Fin (- 5)) (fmul (fsub (Fin 5) (Fin (- 5))) (Fin (1 / 2))) = Fin 0"
  using round64_int [of 10] round64_int [of 5] round64_int [of 0]
  by (simp add: fadd_def fsub_def fmul_def dsub_def)

lemma Uniform_5_quarter:
  "fadd (Fin (- 5)) (fmul (fsub (Fin 5) (Fin (- 5))) (Fin (1 / 4))) = Fin (- 5 / 2)"
  using round64_int [of 10] round64_half [of 5] round64_half [of "- 5"]
  by (simp add: fadd_def fsub_def fmul_def dsub_def)

lemma fsub_5: "fsub (Fin 5) (Fin (- 5)) = Fin 10"
  using round64_int [of 10] by (simp add: fsub_def dsub_def)

text \<open>
  Where the rounding reaches the upper bound. On \<open>[1, 2)\<close> with the largest double below
  one, \<^verbatim>\<open>1 - 2^-53\<close>, the exact sum \<^verbatim>\<open>2 - 2^-53\<close> lies halfway between the doubles
  \<^verbatim>\<open>2 - 2^-52\<close> and \<open>2\<close> and rounds to the even one, \<open>2\<close>.
\<close>

lemma round64_below_two: "round64 (2 - 1 / 2 ^ 53) = Fin 2"
proof -
  let ?a = "2 - 1 / 2 ^ 53 :: real"
  have "rabs ?a = of_int (rne (?a / 2 powi (0 - 52))) * 2 powi (0 - 52)"
    by (rule rabs_binade) simp_all
  moreover have "rne (18014398509481983 / 2) = 9007199254740992" by (simp add: rne_def)
  ultimately have "rabs ?a = 2" by simp
  then have "rnd ?a = 2" by (simp add: rnd_nonneg)
  then show ?thesis by (simp add: round64_def)
qed

lemma Uniform_reaches_maximum:
  "fadd (Fin 1) (fmul (fsub (Fin 2) (Fin 1)) (Fin (1 - 1 / 2 ^ 53))) = Fin 2"
proof -
  have "round64 (of_int (2 ^ 53 - 1) * 2 powi (- 53)) = Fin (of_int (2 ^ 53 - 1) * 2 powi (- 53))"
    by (rule round64_exact) simp_all
  then have "round64 (1 - 1 / 2 ^ 53) = Fin (1 - 1 / 2 ^ 53)" by simp
  then show ?thesis
    using round64_int [of 1] round64_below_two
    by (simp add: fadd_def fsub_def fmul_def dsub_def)
qed

text \<open>
  The largest deviate of a generator of 32 bits, \<^verbatim>\<open>1 - 2^-32\<close>, on
  \<^verbatim>\<open>[2^32, 2^32 + 1)\<close>: the doubles near \<^verbatim>\<open>2^32\<close> are \<^verbatim>\<open>2^-20\<close> apart, and the sum
  rounds to the upper bound.
\<close>

lemma Uniform_reaches_maximum_32:
  "fadd (Fin (2 ^ 32)) (fmul (fsub (Fin (2 ^ 32 + 1)) (Fin (2 ^ 32))) (Fin (1 - 1 / 2 ^ 32)))
     = Fin (2 ^ 32 + 1)"
proof -
  have "round64 (of_int (2 ^ 32 - 1) * 2 powi (- 32)) = Fin (of_int (2 ^ 32 - 1) * 2 powi (- 32))"
    by (rule round64_exact) simp_all
  then have u: "round64 (1 - 1 / 2 ^ 32) = Fin (1 - 1 / 2 ^ 32)" by simp
  let ?a = "2 ^ 32 + (1 - 1 / 2 ^ 32) :: real"
  have "rabs ?a = of_int (rne (?a / 2 powi (32 - 52))) * 2 powi (32 - 52)"
    by (rule rabs_binade) simp_all
  moreover have "rne (?a / 2 powi (32 - 52)) = 2 ^ 52 + 2 ^ 20" by (simp add: rne_def)
  ultimately have "rabs ?a = 2 ^ 32 + 1" by simp
  then have "rnd ?a = 2 ^ 32 + 1" by (simp add: rnd_nonneg)
  then have "round64 ?a = Fin (2 ^ 32 + 1)" by (simp add: round64_def)
  then show ?thesis
    using round64_int [of 1] u
    by (simp add: fadd_def fsub_def fmul_def dsub_def)
qed

text \<open>
  Finite bounds whose difference overflows: on \<^verbatim>\<open>[-2^1023, 2^1023)\<close> the difference is
  \<^verbatim>\<open>2^1024\<close>, which is an infinity in double precision; the draw is \<open>+\<infinity>\<close> for a
  positive deviate and NaN for the deviate zero.
\<close>

lemma Uniform_overflow:
  "is_double (2 ^ 1023)" "is_double (- (2 ^ 1023))"
  "fadd (Fin (- (2 ^ 1023))) (fmul (fsub (Fin (2 ^ 1023)) (Fin (- (2 ^ 1023)))) (Fin (1 / 2))) = PInf"
  "fadd (Fin (- (2 ^ 1023))) (fmul (fsub (Fin (2 ^ 1023)) (Fin (- (2 ^ 1023)))) (Fin 0)) = NaN"
proof -
  show "is_double (2 ^ 1023)"
    using round64_exact [of "2 ^ 52" 971] by (simp add: is_double_def)
  show "is_double (- (2 ^ 1023))"
    using round64_exact [of "- (2 ^ 52)" 971] by (simp add: is_double_def)
  have "rabs (of_int (2 ^ 52) * 2 powi 972) = of_int (2 ^ 52) * 2 powi 972"
    by (rule rabs_id) simp_all
  then have "rnd (2 ^ 1024) = 2 ^ 1024" by (simp add: rnd_nonneg)
  then have "round64 (2 ^ 1024) = PInf" by (simp add: round64_def)
  then have sub: "fsub (Fin (2 ^ 1023)) (Fin (- (2 ^ 1023))) = PInf"
    by (simp add: fsub_def dsub_def)
  show "fadd (Fin (- (2 ^ 1023))) (fmul (fsub (Fin (2 ^ 1023)) (Fin (- (2 ^ 1023)))) (Fin (1 / 2)))
      = PInf"
    using sub by (simp add: fmul_def fadd_def inf_of_sign_def)
  show "fadd (Fin (- (2 ^ 1023))) (fmul (fsub (Fin (2 ^ 1023)) (Fin (- (2 ^ 1023)))) (Fin 0)) = NaN"
    using sub by (simp add: fmul_def fadd_def inf_of_sign_def)
qed

section \<open>Properties of the adaptive proposal\<close>

subsection \<open>The example states\<close>

lemma upt_3: "[0..<3] = [0, 1, 2]" "[0..<2] = [0, 1]" "[0..<1] = [0]"
  by (simp_all add: upt_rec)

lemma adaptive_2d_eq:
  "adaptive_2d = adaptive_new
     \<lparr>fLastPoint := [Fin 0, Fin 0],
      fProposalType := [\<lparr>type = 1, param1 = Fin (- 5), param2 = Fin 5\<rparr>, ProposalType_new]\<rparr>"
  by (simp add: adaptive_2d_def adaptive_new_def SetUniform_def SetDim_def
      TProposeAdaptiveStep_new_def vresize_def ProposalType_new_def eval_nat_numeral)

lemma adaptive_3d_types:
  "fProposalType adaptive_3d =
     [\<lparr>type = 0, param1 = Fin 0, param2 = Fin 0\<rparr>, \<lparr>type = 1, param1 = Fin (- 5), param2 = Fin 5\<rparr>,
      \<lparr>type = 0, param1 = Fin 0, param2 = Fin 0\<rparr>]"
  "fDecomposition adaptive_3d =
     [[Fin 1, Fin 0, Fin (1 / 2)], [Fin 0, Fin 1, Fin 0], [Fin 0, Fin 0, Fin 1]]"
  by (simp_all add: adaptive_3d_def ProposalType_new_def)

text \<open>
  The first call of a sampler as constructed, on a point of dimension one. When the
  likelihood is not NaN and the decomposition of the one-by-one unit matrix succeeds,
  \<^verbatim>\<open>InitializeState\<close> stores the likelihood as the last value, the check whether the
  point moved finds it unchanged, and reads index 1. With a likelihood that is NaN the
  comparison \<^verbatim>\<open>value != fLastValue\<close> is true and the call returns a proposal.
\<close>

lemma first_call_1d:
  assumes "v \<noteq> NaN" and "chol [[Fin 1]] = Some u"
  shows "UpdateState chol [c] v (TProposeAdaptiveStep_new cpt ct atr) = Some (Inl OutOfBounds)"
proof -
  let ?s = "TProposeAdaptiveStep_new cpt ct atr"
  have "\<exists>s1. InitializeState chol [c] v ?s = Some (Inr s1) \<and> fLastValue s1 = v
      \<and> length (fLastPoint s1) = 1"
    using assms(2)
    apply (simp add: InitializeState_def TProposeAdaptiveStep_new_def SetDim_def vresize_def
        ProposalType_new_def vcopy_def dpow_def ResetProposal_def ResetProposal_setup_def Let_def
        ResizeTo_def seed_covariance_def seed_covariance_at_def vget_def mset_def upt_3)
    apply (subst UpdateProposal.simps)
    apply (simp add: deweight_def Let_def)
    done
  then obtain s1 where i: "InitializeState chol [c] v ?s = Some (Inr s1)"
    and l: "fLastValue s1 = v" by blast
  from assms(1) l have "UpdateState_body chol [c] v s1 = Some (Inl OutOfBounds)"
    by (simp add: UpdateState_body_def detect_accepted_def dne_def vget_def)
  with i show ?thesis by (simp add: UpdateState_def)
qed

lemma first_call_1d_nan:
  "returns_value (TProposeAdaptiveStep_call chol_diagonal adaptive_new (constant_rng 0 0)
      [Fin 0] [Fin 5] NaN)"
  apply (simp add: TProposeAdaptiveStep_call_def UpdateState_def InitializeState_def
      adaptive_new_def TProposeAdaptiveStep_new_def SetDim_def vresize_def ProposalType_new_def
      vcopy_def dpow_def ResetProposal_def ResetProposal_setup_def Let_def ResizeTo_def
      seed_covariance_def seed_covariance_at_def vget_def mset_def upt_3)
  apply (simp add: UpdateProposal.simps deweight_def chol_diagonal_def mget_def dmax_def
      dmin_def upt_3)
  apply (simp add: UpdateState_body_def detect_accepted_def dne_def update_acceptance_def
      update_scale_def dmin_def dpow_def update_center_def update_center_at_def
      update_covariance_def update_covariance_at_def periodic_update_def save_last_def
      vcopy_def vget_def vset_def dsub_def mget_def mset_def upt_3 Let_def
      make_proposal_def propose_row_def propose_col_def Gaus_def returns_value_def)
  done

text \<open>A call on the running one-dimensional state, after a move that changed the likelihood.\<close>

lemma call_1d_changed:
  "returns_value (TProposeAdaptiveStep_call chol_diagonal adaptive_1d_run (constant_rng 0 0)
      [Fin 0] [Fin 5] (Fin (- 25 / 2)))"
  by (simp add: TProposeAdaptiveStep_call_def UpdateState_def InitializeState_def
      adaptive_1d_run_def UpdateState_body_def detect_accepted_def dne_def update_acceptance_def
      update_scale_def dmin_def dpow_def update_center_def update_center_at_def
      update_covariance_def update_covariance_at_def periodic_update_def save_last_def
      vcopy_def vget_def vset_def dsub_def mget_def mset_def upt_3 Let_def
      make_proposal_def propose_row_def propose_col_def Gaus_def ProposalType_new_def
      returns_value_def)

text \<open>One call on the running three-dimensional state, after an accepted move.\<close>

lemma UpdateState_3d:
  "\<exists>s1. UpdateState chol_diagonal [Fin 1, Fin 2, Fin 3] (Fin (- 7)) adaptive_3d = Some (Inr s1)
     \<and> fProposalType s1 = fProposalType adaptive_3d
     \<and> fSigma s1 = Fin (1 / 2)
     \<and> fDecomposition s1 = fDecomposition adaptive_3d"
  by (simp add: UpdateState_def InitializeState_def adaptive_3d_def UpdateState_body_def
      detect_accepted_def dne_def update_acceptance_def update_scale_def dmin_def dpow_def
      update_center_def update_center_at_def update_covariance_def update_covariance_at_def
      periodic_update_def save_last_def vcopy_def vget_def dsub_def mget_def mset_def upt_3
      Let_def ProposalType_new_def)

text \<open>
  The first call of the two-dimensional samplers whose first dimension is uniform on
  \<open>[1, 2)\<close> and on \<^verbatim>\<open>[2^32, 2^32 + 1)\<close>.
\<close>

lemma adaptive_unit_eq:
  "adaptive_unit = adaptive_new
     \<lparr>fLastPoint := [Fin 0, Fin 0],
      fProposalType := [\<lparr>type = 1, param1 = Fin 1, param2 = Fin 2\<rparr>, ProposalType_new]\<rparr>"
  by (simp add: adaptive_unit_def adaptive_new_def SetUniform_def SetDim_def
      TProposeAdaptiveStep_new_def vresize_def ProposalType_new_def eval_nat_numeral)

lemma adaptive_wide_eq:
  "adaptive_wide = adaptive_new
     \<lparr>fLastPoint := [Fin 0, Fin 0],
      fProposalType := [\<lparr>type = 1, param1 = Fin (2 ^ 32), param2 = Fin (2 ^ 32 + 1)\<rparr>,
                        ProposalType_new]\<rparr>"
  by (simp add: adaptive_wide_def adaptive_new_def SetUniform_def SetDim_def
      TProposeAdaptiveStep_new_def vresize_def ProposalType_new_def eval_nat_numeral)

lemma UpdateState_unit:
  "\<exists>s1. UpdateState chol_diagonal [Fin (3 / 2), Fin 0] (Fin 0) adaptive_unit = Some (Inr s1)
     \<and> fProposalType s1 = fProposalType adaptive_unit"
  apply (simp add: UpdateState_def InitializeState_def adaptive_unit_eq
      adaptive_new_def TProposeAdaptiveStep_new_def SetDim_def vresize_def ProposalType_new_def
      vcopy_def dpow_def ResetProposal_def ResetProposal_setup_def Let_def ResizeTo_def
      seed_covariance_def seed_covariance_at_def vget_def mset_def upt_3)
  apply (simp add: UpdateProposal.simps deweight_def chol_diagonal_def mget_def dmax_def
      dmin_def upt_3)
  apply (simp add: UpdateState_body_def detect_accepted_def dne_def update_acceptance_def
      update_scale_def dmin_def dpow_def update_center_def update_center_at_def
      update_covariance_def update_covariance_at_def periodic_update_def save_last_def
      vcopy_def vget_def vset_def dsub_def mget_def mset_def upt_3 Let_def)
  done

lemma UpdateState_wide:
  "\<exists>s1. UpdateState chol_diagonal [Fin (2 ^ 32), Fin 0] (Fin 0) adaptive_wide = Some (Inr s1)
     \<and> fProposalType s1 = fProposalType adaptive_wide"
  apply (simp add: UpdateState_def InitializeState_def adaptive_wide_eq
      adaptive_new_def TProposeAdaptiveStep_new_def SetDim_def vresize_def ProposalType_new_def
      vcopy_def dpow_def ResetProposal_def ResetProposal_setup_def Let_def ResizeTo_def
      seed_covariance_def seed_covariance_at_def vget_def mset_def upt_3)
  apply (simp add: UpdateProposal.simps deweight_def chol_diagonal_def mget_def dmax_def
      dmin_def upt_3)
  apply (simp add: UpdateState_body_def detect_accepted_def dne_def update_acceptance_def
      update_scale_def dmin_def dpow_def update_center_def update_center_at_def
      update_covariance_def update_covariance_at_def periodic_update_def save_last_def
      vcopy_def vget_def vset_def dsub_def mget_def mset_def upt_3 Let_def)
  done

subsection \<open>Precondition violations\<close>

text \<open>
  Claim C5, as the code has it. Two of the four violations are fatal: \<^verbatim>\<open>Step\<close> before
  \<^verbatim>\<open>Start\<close> (an empty proposed or accepted point) and a proposal vector whose size
  differs from the current point both end in a bare \<^verbatim>\<open>throw\<close>, which terminates the
  program. The other two are reported and ignored: \<^verbatim>\<open>SetDim\<close> on a proposal whose
  dimension is set, and \<^verbatim>\<open>SetUniform\<close> or \<^verbatim>\<open>SetGaussian\<close> with an index out of range,
  return with the state unchanged, and the sampler goes on.
\<close>

theorem precondition_violations:
  "(fProposed c = [] \<or> fAccepted c = [] \<longrightarrow> Step L propose save c g = Some (Inl Terminated))
   \<and> (length proposal \<noteq> length current
        \<longrightarrow> TProposeAdaptiveStep_call chol s g proposal current v = Some (Inl Terminated))
   \<and> (fLastPoint s \<noteq> [] \<longrightarrow> SetDim n s = Inr s)
   \<and> (i < 0 \<or> length (fProposalType s) \<le> nat i
        \<longrightarrow> SetUniform i lo hi s = s \<and> SetGaussian i sg s = s)"
  by (simp add: Step_def TProposeAdaptiveStep_call_def SetDim_def SetUniform_def SetGaussian_def)

text \<open>
  A chain that was never started, a proposal vector of size one for a point of size two,
  and the three setters on the two-dimensional proposal.
\<close>

theorem precondition_violations_witness:
  "Step TDummyLogLikelihood TProposeSimpleStep_call True
      (TSimpleMCMC_new TProposeSimpleStep_new None (Fin 0) (Fin 0)) (constant_rng 0 0)
     = Some (Inl Terminated)
   \<and> TProposeAdaptiveStep_call chol_diagonal adaptive_2d (constant_rng 0 0)
        [Fin 0] [Fin 0, Fin 0] (Fin 0) = Some (Inl Terminated)
   \<and> SetDim 3 adaptive_2d = Inr adaptive_2d
   \<and> SetUniform 2 (Fin 0) (Fin 1) adaptive_2d = adaptive_2d
   \<and> SetGaussian (- 1) (Fin 1) adaptive_2d = adaptive_2d"
  using precondition_violations [where c = "TSimpleMCMC_new TProposeSimpleStep_new None (Fin 0) (Fin 0)"
      and L = TDummyLogLikelihood and propose = TProposeSimpleStep_call and save = True
      and g = "constant_rng 0 0" and proposal = "[Fin 0]" and current = "[Fin 0, Fin 0]"
      and chol = chol_diagonal and s = adaptive_2d and v = "Fin 0" and n = 3 and i = 2
      and lo = "Fin 0" and hi = "Fin 1" and sg = "Fin 1"]
    precondition_violations [where c = "TSimpleMCMC_new TProposeSimpleStep_new None (Fin 0) (Fin 0)"
      and L = TDummyLogLikelihood and propose = TProposeSimpleStep_call and save = True
      and g = "constant_rng 0 0" and proposal = "[Fin 0]" and current = "[Fin 0, Fin 0]"
      and chol = chol_diagonal and s = adaptive_2d and v = "Fin 0" and n = 3 and i = "- 1"
      and lo = "Fin 0" and hi = "Fin 1" and sg = "Fin 1"]
  by (simp add: TSimpleMCMC_new_def adaptive_2d_eq adaptive_new_def)

text \<open>
  The setters are not fatal: on a proposal of dimension two, a second \<^verbatim>\<open>SetDim\<close> and
  the per-dimension setters with index 2 return, and the proposal is as before.
\<close>

theorem setter_violations_return:
  "fLastPoint adaptive_2d \<noteq> [] \<and> length (fProposalType adaptive_2d) = 2
   \<and> SetDim 3 adaptive_2d = Inr adaptive_2d
   \<and> SetUniform 2 (Fin 0) (Fin 1) adaptive_2d = adaptive_2d
   \<and> SetGaussian 2 (Fin 1) adaptive_2d = adaptive_2d"
  by (simp add: adaptive_2d_eq adaptive_new_def SetDim_def SetUniform_def SetGaussian_def)

subsection \<open>The check whether the point moved\<close>

text \<open>
  Claim C4, as the code has it. The check runs on every call, and it reads index 1 of
  the current point and of the last point exactly when the log likelihood compares equal
  to the last one: otherwise \<^verbatim>\<open>||\<close> does not evaluate its right operand and the answer
  is "moved" with no element read. When index 1 is read, the access is in bounds for a
  sampler of dimension two or more, and out of bounds for dimension one, where the
  update of the state stops there. The first call of a one-dimensional sampler as
  constructed is such a call, whenever its likelihood is not NaN and the decomposition
  of the one-by-one unit matrix succeeds.
\<close>

theorem detect_accepted_index_1:
  "(dne v (fLastValue s) \<longrightarrow> detect_accepted current v s = Inr True)
   \<and> (\<not> dne v (fLastValue s) \<and> 2 \<le> length current \<and> length (fLastPoint s) = length current
        \<longrightarrow> detect_accepted current v s = Inr (dne (current ! 1) (fLastPoint s ! 1)))
   \<and> (\<not> dne v (fLastValue s) \<and> length current = 1
        \<longrightarrow> detect_accepted current v s = Inl OutOfBounds
          \<and> UpdateState_body chol current v s = Some (Inl OutOfBounds))
   \<and> (v \<noteq> NaN \<and> chol [[Fin 1]] = Some u
        \<longrightarrow> UpdateState chol [c] v (TProposeAdaptiveStep_new cpt ct atr) = Some (Inl OutOfBounds))"
proof (intro conjI impI)
  show "detect_accepted current v s = Inr True" if "dne v (fLastValue s)"
    using that by (simp add: detect_accepted_def)
  show "detect_accepted current v s = Inr (dne (current ! 1) (fLastPoint s ! 1))"
    if "\<not> dne v (fLastValue s) \<and> 2 \<le> length current \<and> length (fLastPoint s) = length current"
    using that by (simp add: detect_accepted_def vget_def)
  show "detect_accepted current v s = Inl OutOfBounds"
    if "\<not> dne v (fLastValue s) \<and> length current = 1"
    using that by (simp add: detect_accepted_def vget_def)
  show "UpdateState_body chol current v s = Some (Inl OutOfBounds)"
    if "\<not> dne v (fLastValue s) \<and> length current = 1"
    using that by (simp add: UpdateState_body_def detect_accepted_def vget_def)
  show "UpdateState chol [c] v (TProposeAdaptiveStep_new cpt ct atr) = Some (Inl OutOfBounds)"
    if "v \<noteq> NaN \<and> chol [[Fin 1]] = Some u"
    using that first_call_1d by blast
qed

text \<open>
  The running one-dimensional state with a changed likelihood, dimension two with an
  unchanged likelihood and a changed second coordinate, the running one-dimensional
  state with an unchanged likelihood, and the first call of a one-dimensional sampler.
\<close>

theorem detect_accepted_index_1_witness:
  "detect_accepted [Fin 5] (Fin (- 25 / 2)) adaptive_1d_run = Inr True
   \<and> detect_accepted [Fin 3, Fin 4] (Fin 0) adaptive_2d = Inr True
   \<and> detect_accepted [Fin 0] (Fin 0) adaptive_1d_run = Inl OutOfBounds
   \<and> UpdateState_body chol_diagonal [Fin 0] (Fin 0) adaptive_1d_run = Some (Inl OutOfBounds)
   \<and> UpdateState chol_diagonal [Fin 5] (Fin (- 25 / 2)) adaptive_new = Some (Inl OutOfBounds)"
  using detect_accepted_index_1 [of "Fin (- 25 / 2)" adaptive_1d_run "[Fin 5]" chol_diagonal]
    detect_accepted_index_1 [of "Fin 0" adaptive_2d "[Fin 3, Fin 4]" chol_diagonal]
    detect_accepted_index_1 [of "Fin 0" adaptive_1d_run "[Fin 0]" chol_diagonal]
    detect_accepted_index_1 [of "Fin (- 25 / 2)" adaptive_1d_run "[Fin 5]" chol_diagonal
      "[[Fin 1]]" "Fin 5" "Fin 0" "Fin 0" "Fin 0"]
  by (simp add: adaptive_1d_run_def adaptive_2d_eq adaptive_new_def TProposeAdaptiveStep_new_def
      dne_def chol_diagonal_def mget_def upt_3)

text \<open>
  Not every call reads index 1. On a one-dimensional sampler, a call after a move that
  changed the likelihood returns a proposal, and so does the first call when the
  likelihood is NaN: in neither is an access out of bounds.
\<close>

theorem detect_accepted_without_read:
  "length (fLastPoint adaptive_1d_run) = 1
   \<and> returns_value (TProposeAdaptiveStep_call chol_diagonal adaptive_1d_run (constant_rng 0 0)
        [Fin 0] [Fin 5] (Fin (- 25 / 2)))
   \<and> returns_value (TProposeAdaptiveStep_call chol_diagonal adaptive_new (constant_rng 0 0)
        [Fin 0] [Fin 5] NaN)"
  using first_call_1d_nan call_1d_changed by (simp add: adaptive_1d_run_def)

subsection \<open>The scale of the proposal\<close>

lemma dmul_one [simp]: "dmul a (Fin 1) = a"
  by (cases a) (simp_all add: inf_of_sign_def)

text \<open>
  Claim C9. The update \<^verbatim>\<open>fSigma *= pow(fAcceptance/fTargetAcceptance, min(0.001,
  0.5/fAcceptanceWindow))\<close> leaves \<^verbatim>\<open>fSigma\<close> unchanged whenever the acceptance equals
  the target acceptance: the ratio is one and every power of one is one. The target is a
  number other than zero; the constructor sets it to 0.44 and nothing changes it.
\<close>

theorem update_scale_fixed_point:
  assumes "fAcceptance s = fTargetAcceptance s"
    and "fTargetAcceptance s = Fin t" and "t \<noteq> 0"
  shows "fSigma (update_scale s) = fSigma s"
  using assms by (simp add: update_scale_def dpow_def)

text \<open>The constructed proposal with the acceptance at the target 0.44 and a width of 0.7.\<close>

theorem update_scale_fixed_point_witness:
  "fSigma (update_scale
     (adaptive_new\<lparr>fAcceptance := Fin (44 / 100), fAcceptanceWindow := Fin 1004,
                   fSigma := Fin (7 / 10)\<rparr>))
   = Fin (7 / 10)"
  using update_scale_fixed_point [of
      "adaptive_new\<lparr>fAcceptance := Fin (44 / 100), fAcceptanceWindow := Fin 1004,
                    fSigma := Fin (7 / 10)\<rparr>"
      "44 / 100"]
  by (simp add: adaptive_new_def TProposeAdaptiveStep_new_def)

subsection \<open>The proposal loop\<close>

lemma propose_col_prefix:
  assumes "length p = n" and "n \<le> length (fProposalType s)"
  shows "m \<le> n \<Longrightarrow>
    efold (propose_col s r i) [0..<m] p =
      Inr (map (\<lambda>j. if j < m \<and> type (fProposalType s ! j) \<noteq> 1
                     then dadd (p ! j) (dmul (dmul (fSigma s) r) (mget (fDecomposition s) i j))
                     else p ! j) [0..<n])"
proof (induction m)
  case 0
  then show ?case using assms(1) by (auto simp: list_eq_iff_nth_eq)
next
  case (Suc m)
  let ?f = "\<lambda>m j. if j < m \<and> type (fProposalType s ! j) \<noteq> 1
                     then dadd (p ! j) (dmul (dmul (fSigma s) r) (mget (fDecomposition s) i j))
                     else p ! j"
  have m: "m < n" "m < length (fProposalType s)" using Suc.prems assms(2) by simp_all
  have "efold (propose_col s r i) [0..<Suc m] p =
        ebind (Inr (map (?f m) [0..<n])) (propose_col s r i m)"
    using Suc by (simp add: efold_snoc)
  also have "\<dots> = Inr (map (?f (Suc m)) [0..<n])"
    using m by (auto simp: propose_col_def vget_def vset_def list_eq_iff_nth_eq
        nth_list_update less_Suc_eq)
  finally show ?case .
qed

lemma gaussian_rows_Suc:
  "gaussian_rows ts (Suc k) =
     (if type (ts ! k) \<noteq> 1 then gaussian_rows ts k @ [k] else gaussian_rows ts k)"
  by (simp add: gaussian_rows_def)

lemma uniform_rows_Suc:
  "uniform_rows ts (Suc k) =
     (if type (ts ! k) = 1 then uniform_rows ts k @ [k] else uniform_rows ts k)"
  by (simp add: uniform_rows_def)

lemma propose_row_prefix:
  assumes "length (fProposalType s) \<ge> length current"
  shows "k \<le> length current \<Longrightarrow>
    efold (propose_row s) [0..<k] (current, g) =
      Inr (proposal_after s g current k, rng_after g (fProposalType s) k)"
proof (induction k)
  case 0
  have "proposal_after s g current 0 = current"
    by (rule nth_equalityI)
       (simp_all add: proposal_after_def correlated_sum_def gaussian_rows_def)
  moreover have "rng_after g (fProposalType s) 0 = g"
    by (simp add: rng_after_def gaussian_rows_def uniform_rows_def)
  ultimately show ?case by simp
next
  case (Suc k)
  let ?ts = "fProposalType s"
  let ?n = "length current"
  have k: "k < ?n" "k < length ?ts" using Suc.prems assms by simp_all
  have len: "length (proposal_after s g current k) = ?n" by (simp add: proposal_after_def)
  have step: "efold (propose_row s) [0..<Suc k] (current, g) =
        propose_row s k (proposal_after s g current k, rng_after g ?ts k)"
    using Suc by (simp add: efold_snoc)
  show ?case
  proof (cases "type (?ts ! k) = 1")
    case True
    have "propose_row s k (proposal_after s g current k, rng_after g ?ts k) =
          Inr ((proposal_after s g current k)[k := row_uniform g ?ts k], rng_after g ?ts (Suc k))"
      using True k len
      by (simp add: propose_row_def vget_def vset_def Uniform2_def row_uniform_def rng_after_def
          uniform_rows_Suc gaussian_rows_Suc)
    moreover have "(proposal_after s g current k)[k := row_uniform g ?ts k] =
          proposal_after s g current (Suc k)"
    proof (rule nth_equalityI)
      show "length ((proposal_after s g current k)[k := row_uniform g ?ts k]) =
            length (proposal_after s g current (Suc k))"
        by (simp add: proposal_after_def)
    next
      fix j assume "j < length ((proposal_after s g current k)[k := row_uniform g ?ts k])"
      then have j: "j < ?n" by (simp add: proposal_after_def)
      show "(proposal_after s g current k)[k := row_uniform g ?ts k] ! j =
            proposal_after s g current (Suc k) ! j"
      proof (cases "j = k")
        case True
        with \<open>type (?ts ! k) = 1\<close> k show ?thesis
          by (simp add: proposal_after_def)
      next
        case False
        with \<open>type (?ts ! k) = 1\<close> k j show ?thesis
          by (simp add: proposal_after_def correlated_sum_def gaussian_rows_Suc less_Suc_eq)
      qed
    qed
    ultimately show ?thesis using step by simp
  next
    case False
    have inner: "efold (propose_col s (row_normal g ?ts k) k) [0..<?n] (proposal_after s g current k) =
        Inr (map (\<lambda>j. if j < ?n \<and> type (?ts ! j) \<noteq> 1
                     then dadd (proposal_after s g current k ! j)
                            (dmul (dmul (fSigma s) (row_normal g ?ts k)) (mget (fDecomposition s) k j))
                     else proposal_after s g current k ! j) [0..<?n])"
      by (rule propose_col_prefix [OF len assms]) simp
    have "propose_row s k (proposal_after s g current k, rng_after g ?ts k) =
          Inr (map (\<lambda>j. if j < ?n \<and> type (?ts ! j) \<noteq> 1
                     then dadd (proposal_after s g current k ! j)
                            (dmul (dmul (fSigma s) (row_normal g ?ts k)) (mget (fDecomposition s) k j))
                     else proposal_after s g current k ! j) [0..<?n], rng_after g ?ts (Suc k))"
      using False k len inner
      by (simp add: propose_row_def vget_def Gaus_def row_normal_def rng_after_def
          uniform_rows_Suc gaussian_rows_Suc)
    moreover have "map (\<lambda>j. if j < ?n \<and> type (?ts ! j) \<noteq> 1
                     then dadd (proposal_after s g current k ! j)
                            (dmul (dmul (fSigma s) (row_normal g ?ts k)) (mget (fDecomposition s) k j))
                     else proposal_after s g current k ! j) [0..<?n] =
          proposal_after s g current (Suc k)"
    proof (rule nth_equalityI)
      show "length (map (\<lambda>j. if j < ?n \<and> type (?ts ! j) \<noteq> 1
                     then dadd (proposal_after s g current k ! j)
                            (dmul (dmul (fSigma s) (row_normal g ?ts k)) (mget (fDecomposition s) k j))
                     else proposal_after s g current k ! j) [0..<?n]) =
            length (proposal_after s g current (Suc k))"
        by (simp add: proposal_after_def)
    next
      fix j assume "j < length (map (\<lambda>j. if j < ?n \<and> type (?ts ! j) \<noteq> 1
                     then dadd (proposal_after s g current k ! j)
                            (dmul (dmul (fSigma s) (row_normal g ?ts k)) (mget (fDecomposition s) k j))
                     else proposal_after s g current k ! j) [0..<?n])"
      then have j: "j < ?n" by simp
      have "j \<noteq> k \<or> type (?ts ! j) \<noteq> 1" using False by auto
      with False j show "map (\<lambda>j. if j < ?n \<and> type (?ts ! j) \<noteq> 1
                     then dadd (proposal_after s g current k ! j)
                            (dmul (dmul (fSigma s) (row_normal g ?ts k)) (mget (fDecomposition s) k j))
                     else proposal_after s g current k ! j) [0..<?n] ! j =
            proposal_after s g current (Suc k) ! j"
        by (cases "j = k") (auto simp: proposal_after_def correlated_sum_def gaussian_rows_Suc)
    qed
    ultimately show ?thesis using step by simp
  qed
qed

lemma make_proposal_eq:
  assumes "length proposal = length current" and "length current \<le> length (fProposalType s)"
  shows "make_proposal s current proposal g =
    Inr (proposal_after s g current (length current),
         rng_after g (fProposalType s) (length current))"
  using assms by (simp add: make_proposal_def vcopy_def propose_row_prefix)

lemma call_eq:
  assumes "UpdateState chol current v s = Some (Inr s1)"
    and "length proposal = length current"
    and "length current \<le> length (fProposalType s1)"
  shows "TProposeAdaptiveStep_call chol s g proposal current v =
    Some (Inr (s1, rng_after g (fProposalType s1) (length current),
               proposal_after s1 g current (length current)))"
  using assms by (simp add: TProposeAdaptiveStep_call_def make_proposal_eq)

text \<open>A call that returns a proposal returns one of the size of the current point.\<close>

lemma propose_col_length:
  "propose_col s r i j p = Inr q \<Longrightarrow> length p = n \<Longrightarrow> length q = n"
  by (auto simp: propose_col_def vget_def vset_def ebind_def split: sum.splits if_splits)

lemma propose_row_length:
  assumes "propose_row s i st = Inr st'" and "length (fst st) = n"
  shows "length (fst st') = n"
proof (cases st)
  case (Pair p g)
  show ?thesis
  proof (cases "vget (fProposalType s) i")
    case (Inl e)
    with assms Pair show ?thesis by (simp add: propose_row_def)
  next
    case (Inr t)
    show ?thesis
    proof (cases "type t = 1")
      case True
      with assms Pair Inr show ?thesis
        by (auto simp: propose_row_def vset_def Uniform2_def split: if_splits)
    next
      case False
      with assms Pair Inr obtain q where
        q: "efold (propose_col s (fst (Gaus (Fin 0) (Fin 1) g)) i) [0..<length p] p = Inr q"
        and st': "fst st' = q"
        by (auto simp: propose_row_def split_beta ebind_def split: sum.splits)
      have "length q = n"
        using q
        by (rule efold_preserves [where P = "\<lambda>c. length c = n", rotated 1])
           (use assms(2) Pair in simp, erule propose_col_length, simp)
      with st' show ?thesis by simp
    qed
  qed
qed

lemma call_length:
  assumes "TProposeAdaptiveStep_call chol s g proposal current v = Some (Inr (s1, g1, p))"
  shows "length p = length current"
proof -
  from assms have len: "length proposal = length current"
    by (auto simp: TProposeAdaptiveStep_call_def split: if_splits)
  from assms obtain s2 where mp: "make_proposal s2 current proposal g = Inr (p, g1)"
    by (auto simp: TProposeAdaptiveStep_call_def ebind_def
        split: if_splits option.splits sum.splits)
  then have "efold (propose_row s2) [0..<length current] (current, g) = Inr (p, g1)"
    using len by (simp add: make_proposal_def vcopy_def)
  then have "length (fst (p, g1)) = length current"
    by (rule efold_preserves [where P = "\<lambda>c. length (fst c) = length current", rotated 1])
       (simp, erule propose_row_length, simp)
  then show ?thesis by simp
qed

lemma uniform_rows_length_mono:
  "i < k \<Longrightarrow> type (ts ! i) = 1 \<Longrightarrow> length (uniform_rows ts i) < length (uniform_rows ts k)"
proof (induction k)
  case 0
  then show ?case by simp
next
  case (Suc k)
  show ?case
  proof (cases "i = k")
    case True
    with Suc.prems show ?thesis by (simp add: uniform_rows_Suc)
  next
    case False
    with Suc have "length (uniform_rows ts i) < length (uniform_rows ts k)" by simp
    then show ?thesis by (simp add: uniform_rows_Suc)
  qed
qed

text \<open>
  Claim C6. A call that updates the state and makes the proposal draws exactly one
  normal deviate for each Gaussian row \<open>i\<close>: the position of the normal tape advances by
  the number of Gaussian rows, and row \<open>i\<close> uses the deviate whose place is the number of
  Gaussian rows before it. That one deviate \<open>r\<close> serves every Gaussian column \<open>j\<close>: the
  proposal at \<open>j\<close> is the current value plus \<^verbatim>\<open>fSigma*r*fDecomposition(i,j)\<close> summed over
  the Gaussian rows in order. A uniform row draws no normal deviate, and a uniform
  column holds its uniform draw with nothing added.
\<close>

theorem adaptive_proposal_shares_row_normal:
  assumes "UpdateState chol current v s = Some (Inr s1)"
    and "length proposal = length current"
    and "length current \<le> length (fProposalType s1)"
  shows "\<exists>p g1. TProposeAdaptiveStep_call chol s g proposal current v = Some (Inr (s1, g1, p))
     \<and> length p = length current
     \<and> gaus_pos g1 = gaus_pos g + length (gaussian_rows (fProposalType s1) (length current))
     \<and> (\<forall>j < length current. type (fProposalType s1 ! j) \<noteq> 1 \<longrightarrow>
          p ! j = foldl (\<lambda>acc i. dadd acc
                     (dmul (dmul (fSigma s1) (row_normal g (fProposalType s1) i))
                           (mget (fDecomposition s1) i j)))
                   (current ! j) (gaussian_rows (fProposalType s1) (length current)))
     \<and> (\<forall>j < length current. type (fProposalType s1 ! j) = 1 \<longrightarrow>
          p ! j = row_uniform g (fProposalType s1) j)"
  using call_eq [OF assms, of g]
  by (simp add: proposal_after_def rng_after_def correlated_sum_def)

text \<open>
  Claim C7, as the code has it. For a dimension \<open>i\<close> of uniform type the proposal at \<open>i\<close>
  is \<^verbatim>\<open>Uniform(param1, param2)\<close> on a raw deviate of its own (the place on the tape is
  the number of uniform rows before \<open>i\<close>, which differs from that of every other uniform
  row), with no term of the correlated update added. The value is
  \<^verbatim>\<open>param1 + (param2 - param1)*u\<close> in double arithmetic. For bounds \<open>lo < hi\<close> whose
  difference does not overflow and a raw deviate in \<open>[0, 1)\<close> it lies in the closed
  interval from \<open>lo\<close> to \<open>hi\<close>: the rounding can return \<open>hi\<close> itself.
\<close>

theorem adaptive_proposal_uniform_dimension:
  assumes "UpdateState chol current v s = Some (Inr s1)"
    and "length proposal = length current"
    and "length current \<le> length (fProposalType s1)"
    and "i < length current" and "type (fProposalType s1 ! i) = 1"
  shows "\<exists>p g1. TProposeAdaptiveStep_call chol s g proposal current v = Some (Inr (s1, g1, p))
     \<and> p ! i = fst (Uniform2 (param1 (fProposalType s1 ! i)) (param2 (fProposalType s1 ! i))
                   (g\<lparr>rndm_pos := rndm_pos g + length (uniform_rows (fProposalType s1) i)\<rparr>))
     \<and> rndm_pos g1 = rndm_pos g + length (uniform_rows (fProposalType s1) (length current))
     \<and> (\<forall>k < length current. type (fProposalType s1 ! k) = 1 \<and> k \<noteq> i \<longrightarrow>
          length (uniform_rows (fProposalType s1) k) \<noteq> length (uniform_rows (fProposalType s1) i))
     \<and> (\<forall>lo hi. param1 (fProposalType s1 ! i) = Fin lo \<and> param2 (fProposalType s1 ! i) = Fin hi
          \<and> lo < hi \<and> is_double lo \<and> is_double hi \<and> fsub (Fin hi) (Fin lo) \<noteq> PInf
          \<and> is_double (rndm_tape g (rndm_pos g + length (uniform_rows (fProposalType s1) i)))
          \<and> 0 \<le> rndm_tape g (rndm_pos g + length (uniform_rows (fProposalType s1) i))
          \<and> rndm_tape g (rndm_pos g + length (uniform_rows (fProposalType s1) i)) < 1
          \<longrightarrow> (\<exists>x. p ! i = Fin x \<and> lo \<le> x \<and> x \<le> hi))"
proof -
  let ?ts = "fProposalType s1"
  let ?u = "rndm_tape g (rndm_pos g + length (uniform_rows ?ts i))"
  have fresh: "\<forall>k < length current. type (?ts ! k) = 1 \<and> k \<noteq> i \<longrightarrow>
          length (uniform_rows ?ts k) \<noteq> length (uniform_rows ?ts i)"
  proof (intro allI impI)
    fix k assume "k < length current" and k: "type (?ts ! k) = 1 \<and> k \<noteq> i"
    then consider "k < i" | "i < k" by linarith
    then show "length (uniform_rows ?ts k) \<noteq> length (uniform_rows ?ts i)"
    proof cases
      case 1
      with k uniform_rows_length_mono [of k i ?ts] show ?thesis by simp
    next
      case 2
      with assms(5) uniform_rows_length_mono [of i k ?ts] show ?thesis by simp
    qed
  qed
  have bounds: "\<forall>lo hi. param1 (?ts ! i) = Fin lo \<and> param2 (?ts ! i) = Fin hi \<and> lo < hi
          \<and> is_double lo \<and> is_double hi \<and> fsub (Fin hi) (Fin lo) \<noteq> PInf
          \<and> is_double ?u \<and> 0 \<le> ?u \<and> ?u < 1
          \<longrightarrow> (\<exists>x. row_uniform g ?ts i = Fin x \<and> lo \<le> x \<and> x \<le> hi)"
  proof (intro allI impI)
    fix lo hi :: real
    assume a: "param1 (?ts ! i) = Fin lo \<and> param2 (?ts ! i) = Fin hi \<and> lo < hi
          \<and> is_double lo \<and> is_double hi \<and> fsub (Fin hi) (Fin lo) \<noteq> PInf
          \<and> is_double ?u \<and> 0 \<le> ?u \<and> ?u < 1"
    then have "?u \<le> 1 - 1 / 2 ^ 53" by (intro is_double_below_one) simp_all
    with a have "\<exists>x. fadd (Fin lo) (fmul (fsub (Fin hi) (Fin lo)) (Fin ?u)) = Fin x
          \<and> lo \<le> x \<and> x \<le> hi"
      by (intro Uniform_range) simp_all
    with a show "\<exists>x. row_uniform g ?ts i = Fin x \<and> lo \<le> x \<and> x \<le> hi"
      by (simp add: row_uniform_def)
  qed
  show ?thesis
    using call_eq [OF assms(1-3), of g] assms(4,5) fresh bounds
    by (simp add: proposal_after_def rng_after_def row_uniform_def Uniform2_def)
qed

text \<open>
  The three-dimensional state with the normal deviates \<open>2\<close> and \<open>4\<close>: the first deviate
  moves the first coordinate by \<open>1/2 * 2 * 1\<close> and the third by \<open>1/2 * 2 * 1/2\<close>, the
  second deviate moves the third by \<open>1/2 * 4 * 1\<close>.
\<close>

theorem adaptive_proposal_shares_row_normal_witness:
  "\<exists>s1 p g1. TProposeAdaptiveStep_call chol_diagonal adaptive_3d (list_rng [1 / 2] [2, 4])
        [Fin 0, Fin 0, Fin 0] [Fin 1, Fin 2, Fin 3] (Fin (- 7)) = Some (Inr (s1, g1, p))
     \<and> length p = 3 \<and> gaus_pos g1 = 2
     \<and> p ! 0 = Fin 2 \<and> p ! 2 = Fin (11 / 2) \<and> p ! 1 = Fin 0"
proof -
  let ?g = "list_rng [1 / 2] [2, 4]"
  obtain s1 where us: "UpdateState chol_diagonal [Fin 1, Fin 2, Fin 3] (Fin (- 7)) adaptive_3d
        = Some (Inr s1)"
    and ts: "fProposalType s1 = fProposalType adaptive_3d"
    and sg: "fSigma s1 = Fin (1 / 2)" and dc: "fDecomposition s1 = fDecomposition adaptive_3d"
    using UpdateState_3d by blast
  have "\<exists>p g1. TProposeAdaptiveStep_call chol_diagonal adaptive_3d ?g
        [Fin 0, Fin 0, Fin 0] [Fin 1, Fin 2, Fin 3] (Fin (- 7)) = Some (Inr (s1, g1, p))
     \<and> length p = 3 \<and> gaus_pos g1 = 2
     \<and> p ! 0 = Fin 2 \<and> p ! 2 = Fin (11 / 2) \<and> p ! 1 = Fin 0"
    using adaptive_proposal_shares_row_normal [OF us, of "[Fin 0, Fin 0, Fin 0]" ?g]
    by (simp add: ts sg dc adaptive_3d_types All_less_Suc eval_nat_numeral gaussian_rows_def
        uniform_rows_def row_normal_def row_uniform_def list_rng_def mget_def Uniform_5_half)
       blast
  then show ?thesis by blast
qed

text \<open>
  The same state with the raw deviate \<open>1/4\<close>: the uniform dimension becomes
  \<open>-5 + 10 * 1/4\<close>.
\<close>

theorem adaptive_proposal_uniform_dimension_witness:
  "\<exists>s1 p g1. TProposeAdaptiveStep_call chol_diagonal adaptive_3d (list_rng [1 / 4] [2, 4])
        [Fin 0, Fin 0, Fin 0] [Fin 1, Fin 2, Fin 3] (Fin (- 7)) = Some (Inr (s1, g1, p))
     \<and> p ! 1 = Fin (- 5 / 2) \<and> rndm_pos g1 = 1 \<and> (\<exists>x. p ! 1 = Fin x \<and> - 5 \<le> x \<and> x \<le> 5)"
proof -
  let ?g = "list_rng [1 / 4] [2, 4]"
  obtain s1 where us: "UpdateState chol_diagonal [Fin 1, Fin 2, Fin 3] (Fin (- 7)) adaptive_3d
        = Some (Inr s1)"
    and ts: "fProposalType s1 = fProposalType adaptive_3d"
    using UpdateState_3d by blast
  have d: "is_double 5" "is_double (- 5)" "fsub (Fin 5) (Fin (- 5)) \<noteq> PInf"
    using is_double_int [of 5] is_double_int [of "- 5"] fsub_5 by simp_all
  have "\<exists>p g1. TProposeAdaptiveStep_call chol_diagonal adaptive_3d ?g
        [Fin 0, Fin 0, Fin 0] [Fin 1, Fin 2, Fin 3] (Fin (- 7)) = Some (Inr (s1, g1, p))
     \<and> p ! 1 = Fin (- 5 / 2) \<and> rndm_pos g1 = 1 \<and> (\<exists>x. p ! 1 = Fin x \<and> - 5 \<le> x \<and> x \<le> 5)"
    using adaptive_proposal_uniform_dimension [OF us, of "[Fin 0, Fin 0, Fin 0]" 1 ?g]
    by (simp add: ts adaptive_3d_types All_less_Suc eval_nat_numeral
        uniform_rows_def Uniform2_def list_rng_def Uniform_5_quarter is_double_quarter d)
  then show ?thesis by blast
qed

text \<open>
  The first call of the sampler that is uniform on \<open>[1, 2)\<close>, with the raw deviate
  \<^verbatim>\<open>1 - 2^-53\<close>, and of the one that is uniform on \<^verbatim>\<open>[2^32, 2^32 + 1)\<close>, with the
  raw deviate \<^verbatim>\<open>1 - 2^-32\<close>, which is the largest one of a generator of 32 bits.
\<close>

lemma first_call_unit:
  "returns_value (TProposeAdaptiveStep_call chol_diagonal adaptive_unit
      (list_rng [1 - 1 / 2 ^ 53] [0]) [Fin 0, Fin 0] [Fin (3 / 2), Fin 0] (Fin 0))"
  "proposed_point (TProposeAdaptiveStep_call chol_diagonal adaptive_unit
      (list_rng [1 - 1 / 2 ^ 53] [0]) [Fin 0, Fin 0] [Fin (3 / 2), Fin 0] (Fin 0)) ! 0 = Fin 2"
proof -
  let ?g = "list_rng [1 - 1 / 2 ^ 53] [0]" and ?cur = "[Fin (3 / 2), Fin 0]"
  obtain s1 where us: "UpdateState chol_diagonal ?cur (Fin 0) adaptive_unit = Some (Inr s1)"
    and ts: "fProposalType s1 = fProposalType adaptive_unit"
    using UpdateState_unit by blast
  have tu: "fProposalType adaptive_unit =
      [\<lparr>type = 1, param1 = Fin 1, param2 = Fin 2\<rparr>, ProposalType_new]"
    by (simp add: adaptive_unit_eq)
  have call: "TProposeAdaptiveStep_call chol_diagonal adaptive_unit ?g [Fin 0, Fin 0] ?cur (Fin 0) =
      Some (Inr (s1, rng_after ?g (fProposalType s1) (length ?cur),
                 proposal_after s1 ?g ?cur (length ?cur)))"
    by (rule call_eq [OF us]) (simp_all add: ts tu)
  have "row_uniform ?g (fProposalType s1) 0 = Fin 2"
    using Uniform_reaches_maximum
    by (simp add: row_uniform_def ts tu uniform_rows_def list_rng_def)
  then have p: "proposal_after s1 ?g ?cur (length ?cur) ! 0 = Fin 2"
    by (simp add: proposal_after_def ts tu upt_3)
  from call show "returns_value (TProposeAdaptiveStep_call chol_diagonal adaptive_unit
      ?g [Fin 0, Fin 0] ?cur (Fin 0))"
    by (simp add: returns_value_def)
  from call p show "proposed_point (TProposeAdaptiveStep_call chol_diagonal adaptive_unit
      ?g [Fin 0, Fin 0] ?cur (Fin 0)) ! 0 = Fin 2"
    by (simp add: proposed_point_def)
qed

lemma first_call_wide:
  "returns_value (TProposeAdaptiveStep_call chol_diagonal adaptive_wide
      (list_rng [1 - 1 / 2 ^ 32] [0]) [Fin 0, Fin 0] [Fin (2 ^ 32), Fin 0] (Fin 0))"
  "proposed_point (TProposeAdaptiveStep_call chol_diagonal adaptive_wide
      (list_rng [1 - 1 / 2 ^ 32] [0]) [Fin 0, Fin 0] [Fin (2 ^ 32), Fin 0] (Fin 0)) ! 0
     = Fin (2 ^ 32 + 1)"
proof -
  let ?g = "list_rng [1 - 1 / 2 ^ 32] [0]" and ?cur = "[Fin (2 ^ 32), Fin 0]"
  obtain s1 where us: "UpdateState chol_diagonal ?cur (Fin 0) adaptive_wide = Some (Inr s1)"
    and ts: "fProposalType s1 = fProposalType adaptive_wide"
    using UpdateState_wide by blast
  have tu: "fProposalType adaptive_wide =
      [\<lparr>type = 1, param1 = Fin (2 ^ 32), param2 = Fin (2 ^ 32 + 1)\<rparr>, ProposalType_new]"
    by (simp add: adaptive_wide_eq)
  have call: "TProposeAdaptiveStep_call chol_diagonal adaptive_wide ?g [Fin 0, Fin 0] ?cur (Fin 0) =
      Some (Inr (s1, rng_after ?g (fProposalType s1) (length ?cur),
                 proposal_after s1 ?g ?cur (length ?cur)))"
    by (rule call_eq [OF us]) (simp_all add: ts tu)
  have "row_uniform ?g (fProposalType s1) 0 = Fin (2 ^ 32 + 1)"
    using Uniform_reaches_maximum_32
    by (simp add: row_uniform_def ts tu uniform_rows_def list_rng_def)
  then have p: "proposal_after s1 ?g ?cur (length ?cur) ! 0 = Fin (2 ^ 32 + 1)"
    by (simp add: proposal_after_def ts tu upt_3)
  from call show "returns_value (TProposeAdaptiveStep_call chol_diagonal adaptive_wide
      ?g [Fin 0, Fin 0] ?cur (Fin 0))"
    by (simp add: returns_value_def)
  from call p show "proposed_point (TProposeAdaptiveStep_call chol_diagonal adaptive_wide
      ?g [Fin 0, Fin 0] ?cur (Fin 0)) ! 0 = Fin (2 ^ 32 + 1)"
    by (simp add: proposed_point_def)
qed

text \<open>
  The claim as the specification has it, with the half-open interval, fails. Both
  samplers propose the upper bound of the uniform dimension, which is not below itself.
\<close>

theorem uniform_dimension_reaches_maximum:
  "type (fProposalType adaptive_unit ! 0) = 1
   \<and> param1 (fProposalType adaptive_unit ! 0) = Fin 1
   \<and> param2 (fProposalType adaptive_unit ! 0) = Fin 2
   \<and> returns_value (TProposeAdaptiveStep_call chol_diagonal adaptive_unit
         (list_rng [1 - 1 / 2 ^ 53] [0]) [Fin 0, Fin 0] [Fin (3 / 2), Fin 0] (Fin 0))
   \<and> proposed_point (TProposeAdaptiveStep_call chol_diagonal adaptive_unit
         (list_rng [1 - 1 / 2 ^ 53] [0]) [Fin 0, Fin 0] [Fin (3 / 2), Fin 0] (Fin 0)) ! 0 = Fin 2
   \<and> \<not> dless (proposed_point (TProposeAdaptiveStep_call chol_diagonal adaptive_unit
         (list_rng [1 - 1 / 2 ^ 53] [0]) [Fin 0, Fin 0] [Fin (3 / 2), Fin 0] (Fin 0)) ! 0)
         (param2 (fProposalType adaptive_unit ! 0))
   \<and> type (fProposalType adaptive_wide ! 0) = 1
   \<and> param1 (fProposalType adaptive_wide ! 0) = Fin (2 ^ 32)
   \<and> param2 (fProposalType adaptive_wide ! 0) = Fin (2 ^ 32 + 1)
   \<and> returns_value (TProposeAdaptiveStep_call chol_diagonal adaptive_wide
         (list_rng [1 - 1 / 2 ^ 32] [0]) [Fin 0, Fin 0] [Fin (2 ^ 32), Fin 0] (Fin 0))
   \<and> proposed_point (TProposeAdaptiveStep_call chol_diagonal adaptive_wide
         (list_rng [1 - 1 / 2 ^ 32] [0]) [Fin 0, Fin 0] [Fin (2 ^ 32), Fin 0] (Fin 0)) ! 0
       = Fin (2 ^ 32 + 1)
   \<and> \<not> dless (proposed_point (TProposeAdaptiveStep_call chol_diagonal adaptive_wide
         (list_rng [1 - 1 / 2 ^ 32] [0]) [Fin 0, Fin 0] [Fin (2 ^ 32), Fin 0] (Fin 0)) ! 0)
         (param2 (fProposalType adaptive_wide ! 0))"
  using first_call_unit first_call_wide
  by (simp add: adaptive_unit_eq adaptive_wide_eq)

text \<open>
  A call on the three-dimensional state from the point \<open>(1, 2, 3)\<close> whose first raw
  deviate is \<open>1/2\<close>: the uniform dimension becomes \<open>0\<close>. With the normal deviates \<open>-2\<close>
  and \<open>-5\<close> the call proposes the origin, with \<open>2\<close> and \<open>4\<close> it proposes \<open>(2, 0, 11/2)\<close>.
\<close>

lemma adaptive_call_3d:
  "\<exists>s1 g1. TProposeAdaptiveStep_call chol_diagonal adaptive_3d (list_rng (1 / 2 # us) [z0, z2])
       [Fin 1, Fin 2, Fin 3] [Fin 1, Fin 2, Fin 3] (Fin (- 7))
     = Some (Inr (s1, g1, [Fin (1 + z0 / 2), Fin 0, Fin (3 + z0 / 4 + z2 / 2)]))
     \<and> rndm_tape g1 = rndm_tape (list_rng (1 / 2 # us) [z0, z2]) \<and> rndm_pos g1 = 1"
proof -
  obtain s1 where us: "UpdateState chol_diagonal [Fin 1, Fin 2, Fin 3] (Fin (- 7)) adaptive_3d
        = Some (Inr s1)"
    and ts: "fProposalType s1 = fProposalType adaptive_3d"
    and sg: "fSigma s1 = Fin (1 / 2)" and dc: "fDecomposition s1 = fDecomposition adaptive_3d"
    using UpdateState_3d by blast
  let ?g = "list_rng (1 / 2 # us) [z0, z2]" and ?cur = "[Fin 1, Fin 2, Fin 3]"
  have pa: "proposal_after s1 ?g ?cur (length ?cur) =
      [Fin (1 + z0 / 2), Fin 0, Fin (3 + z0 / 4 + z2 / 2)]"
    by (simp add: proposal_after_def correlated_sum_def gaussian_rows_def uniform_rows_def
        row_normal_def row_uniform_def ts sg dc adaptive_3d_types list_rng_def mget_def
        Uniform_5_half)
  have ra: "rndm_tape (rng_after ?g (fProposalType s1) (length ?cur)) = rndm_tape ?g"
    "rndm_pos (rng_after ?g (fProposalType s1) (length ?cur)) = 1"
    by (simp_all add: rng_after_def uniform_rows_def ts adaptive_3d_types list_rng_def)
  have "TProposeAdaptiveStep_call chol_diagonal adaptive_3d ?g ?cur ?cur (Fin (- 7)) =
      Some (Inr (s1, rng_after ?g (fProposalType s1) (length ?cur),
                 proposal_after s1 ?g ?cur (length ?cur)))"
    by (rule call_eq [OF us]) (simp_all add: ts adaptive_3d_types)
  then show ?thesis unfolding pa using ra by blast
qed

subsection \<open>The deweighting in \<^verbatim>\<open>UpdateProposal\<close>\<close>

lemma sqrt_epsilon: "dsqrt dbl_epsilon = Fin (1 / 2 ^ 26)"
proof -
  have "sqrt (1 / 2 ^ 52) = (1 / 2 ^ 26 :: real)"
    by (rule real_sqrt_unique) (simp_all add: power2_eq_square)
  then show ?thesis by (simp add: dbl_epsilon_def)
qed

lemma repair_stuck: "repair_covariance (deweight adaptive_stuck) = Inr (deweight adaptive_stuck)"
  by (simp add: repair_covariance_def floor_variance_at_def expectedVariance_def vget_def
      sqrt_epsilon adaptive_stuck_def deweight_def dmax_def dmin_def Let_def mget_def mset_def
      dsub_def cap_correlations_def cap_correlation_at_def upt_3)

lemma floor_variance_at_trials:
  "floor_variance_at i a = Inr b \<Longrightarrow>
   fCovarianceTrials a = c \<and> fAcceptanceTrials a = t \<Longrightarrow>
   fCovarianceTrials b = c \<and> fAcceptanceTrials b = t"
  by (auto simp: floor_variance_at_def ebind_def Let_def split: sum.splits if_splits)

lemma repair_covariance_trials:
  assumes "repair_covariance a = Inr b"
  shows "fCovarianceTrials b = fCovarianceTrials a \<and> fAcceptanceTrials b = fAcceptanceTrials a"
proof -
  from assms obtain a1 where
    f: "efold floor_variance_at [0..<length (fLastPoint a)] a = Inr a1"
    and b: "b = a1\<lparr>fCurrentCov := cap_correlations (length (fLastPoint a1)) (fCurrentCov a1)\<rparr>"
    by (auto simp: repair_covariance_def ebind_def split: sum.splits)
  have "fCovarianceTrials a1 = fCovarianceTrials a \<and> fAcceptanceTrials a1 = fAcceptanceTrials a"
    using f
    by (rule efold_preserves [where P = "\<lambda>c. fCovarianceTrials c = fCovarianceTrials a
          \<and> fAcceptanceTrials c = fAcceptanceTrials a", rotated 1])
       (simp, erule floor_variance_at_trials, simp)
  with b show ?thesis by simp
qed

text \<open>
  Claim C8. Every call of \<^verbatim>\<open>UpdateProposal\<close> sets \<^verbatim>\<open>fCovarianceTrials\<close> to
  \<^verbatim>\<open>max(1000, 0.1*fCovarianceTrials)\<close> clamped above by \<^verbatim>\<open>0.1*fCovarianceWindow\<close>, and
  \<^verbatim>\<open>fAcceptanceTrials\<close> in the same way with \<^verbatim>\<open>fAcceptanceWindow\<close>, before it attempts
  the decomposition. When one of the two attempts of the call succeeds, the call returns
  and these are the counts of the state it leaves. When both fail, the state that the
  call hands to \<^verbatim>\<open>ResetProposal\<close> has these counts (and \<^verbatim>\<open>ResetProposal\<close> ends in a
  further call of \<^verbatim>\<open>UpdateProposal\<close>, which sets them again from the state it starts in).
\<close>

theorem UpdateProposal_deweights:
  "(chol (fCurrentCov s) \<noteq> None
      \<or> (\<exists>s2. repair_covariance (deweight s) = Inr s2 \<and> chol (fCurrentCov s2) \<noteq> None)
    \<longrightarrow> (\<exists>s'. UpdateProposal chol s = Some (Inr s')
          \<and> fCovarianceTrials s' =
              dmin (dmax (Fin 1000) (dmul (Fin (1 / 10)) (fCovarianceTrials s)))
                   (dmul (Fin (1 / 10)) (fCovarianceWindow s))
          \<and> fAcceptanceTrials s' =
              dmin (dmax (Fin 1000) (dmul (Fin (1 / 10)) (fAcceptanceTrials s)))
                   (dmul (Fin (1 / 10)) (fAcceptanceWindow s))))
   \<and> (chol (fCurrentCov s) = None \<and> repair_covariance (deweight s) = Inr s2
        \<and> chol (fCurrentCov s2) = None
    \<longrightarrow> UpdateProposal chol s = ResetProposal chol s2
        \<and> fCovarianceTrials s2 =
              dmin (dmax (Fin 1000) (dmul (Fin (1 / 10)) (fCovarianceTrials s)))
                   (dmul (Fin (1 / 10)) (fCovarianceWindow s))
        \<and> fAcceptanceTrials s2 =
              dmin (dmax (Fin 1000) (dmul (Fin (1 / 10)) (fAcceptanceTrials s)))
                   (dmul (Fin (1 / 10)) (fAcceptanceWindow s)))"
proof (intro conjI impI)
  assume h: "chol (fCurrentCov s) \<noteq> None
      \<or> (\<exists>s2. repair_covariance (deweight s) = Inr s2 \<and> chol (fCurrentCov s2) \<noteq> None)"
  show "\<exists>s'. UpdateProposal chol s = Some (Inr s')
          \<and> fCovarianceTrials s' =
              dmin (dmax (Fin 1000) (dmul (Fin (1 / 10)) (fCovarianceTrials s)))
                   (dmul (Fin (1 / 10)) (fCovarianceWindow s))
          \<and> fAcceptanceTrials s' =
              dmin (dmax (Fin 1000) (dmul (Fin (1 / 10)) (fAcceptanceTrials s)))
                   (dmul (Fin (1 / 10)) (fAcceptanceWindow s))"
  proof (cases "chol (fCurrentCov s)")
    case (Some u)
    then show ?thesis
      by (subst UpdateProposal.simps) (simp add: deweight_def Let_def)
  next
    case None
    with h obtain s2 u where r: "repair_covariance (deweight s) = Inr s2"
      and c: "chol (fCurrentCov s2) = Some u" by auto
    from repair_covariance_trials [OF r] None r c show ?thesis
      by (subst UpdateProposal.simps) (simp add: deweight_def Let_def)
  qed
next
  assume f: "chol (fCurrentCov s) = None \<and> repair_covariance (deweight s) = Inr s2
        \<and> chol (fCurrentCov s2) = None"
  then show "UpdateProposal chol s = ResetProposal chol s2"
    by (subst UpdateProposal.simps) (simp add: deweight_def Let_def ResetProposal_def)
  from f repair_covariance_trials [of "deweight s" s2]
  show "fCovarianceTrials s2 =
              dmin (dmax (Fin 1000) (dmul (Fin (1 / 10)) (fCovarianceTrials s)))
                   (dmul (Fin (1 / 10)) (fCovarianceWindow s))"
    and "fAcceptanceTrials s2 =
              dmin (dmax (Fin 1000) (dmul (Fin (1 / 10)) (fAcceptanceTrials s)))
                   (dmul (Fin (1 / 10)) (fAcceptanceWindow s))"
    by (simp_all add: deweight_def Let_def)
qed

text \<open>
  Counts of 50000 and 20000 with windows of ten million and 1009, and a covariance that
  factors: the call returns with a covariance count of 5000 and an acceptance count of
  100.9. Then the state whose covariance does not factor, with windows of ten million and
  1004: the repair changes nothing, and the call hands a state with the counts 5000 and
  100.4 to \<^verbatim>\<open>ResetProposal\<close>, whose own call of \<^verbatim>\<open>UpdateProposal\<close> returns with a
  covariance count of 1000.
\<close>

theorem UpdateProposal_deweights_witness:
  "(\<exists>s'. UpdateProposal chol_diagonal
        (adaptive_3d\<lparr>fCurrentCov := [[Fin 1, Fin 0, Fin 0], [Fin 0, Fin 1, Fin 0], [Fin 0, Fin 0, Fin 1]],
                     fCovarianceTrials := Fin 50000, fAcceptanceTrials := Fin 20000\<rparr>)
      = Some (Inr s')
     \<and> fCovarianceTrials s' = Fin 5000 \<and> fAcceptanceTrials s' = Fin (1009 / 10))
   \<and> UpdateProposal chol_diagonal adaptive_stuck
       = ResetProposal chol_diagonal (deweight adaptive_stuck)
   \<and> fCovarianceTrials (deweight adaptive_stuck) = Fin 5000
   \<and> fAcceptanceTrials (deweight adaptive_stuck) = Fin (1004 / 10)
   \<and> (\<exists>s'. ResetProposal chol_diagonal (deweight adaptive_stuck) = Some (Inr s')
        \<and> fCovarianceTrials s' = Fin 1000 \<and> fAcceptanceTrials s' = Fin (1004 / 10))"
proof (intro conjI)
  show "\<exists>s'. UpdateProposal chol_diagonal
        (adaptive_3d\<lparr>fCurrentCov := [[Fin 1, Fin 0, Fin 0], [Fin 0, Fin 1, Fin 0], [Fin 0, Fin 0, Fin 1]],
                     fCovarianceTrials := Fin 50000, fAcceptanceTrials := Fin 20000\<rparr>)
      = Some (Inr s')
     \<and> fCovarianceTrials s' = Fin 5000 \<and> fAcceptanceTrials s' = Fin (1009 / 10)"
    using UpdateProposal_deweights [of chol_diagonal
        "adaptive_3d\<lparr>fCurrentCov := [[Fin 1, Fin 0, Fin 0], [Fin 0, Fin 1, Fin 0], [Fin 0, Fin 0, Fin 1]],
                       fCovarianceTrials := Fin 50000, fAcceptanceTrials := Fin 20000\<rparr>",
        THEN conjunct1]
    by (simp add: adaptive_3d_def chol_diagonal_def mget_def upt_3 dmin_def dmax_def)
next
  have handed: "UpdateProposal chol_diagonal adaptive_stuck
       = ResetProposal chol_diagonal (deweight adaptive_stuck)
   \<and> fCovarianceTrials (deweight adaptive_stuck) = Fin 5000
   \<and> fAcceptanceTrials (deweight adaptive_stuck) = Fin (1004 / 10)"
    using UpdateProposal_deweights [of chol_diagonal adaptive_stuck "deweight adaptive_stuck",
        THEN conjunct2] repair_stuck
    apply (simp add: chol_diagonal_def mget_def upt_3)
    apply (simp add: adaptive_stuck_def deweight_def dmax_def dmin_def mget_def upt_3)
    done
  from handed show "UpdateProposal chol_diagonal adaptive_stuck
       = ResetProposal chol_diagonal (deweight adaptive_stuck)" by simp
  from handed show "fCovarianceTrials (deweight adaptive_stuck) = Fin 5000" by simp
  from handed show "fAcceptanceTrials (deweight adaptive_stuck) = Fin (1004 / 10)" by simp
next
  show "\<exists>s'. ResetProposal chol_diagonal (deweight adaptive_stuck) = Some (Inr s')
        \<and> fCovarianceTrials s' = Fin 1000 \<and> fAcceptanceTrials s' = Fin (1004 / 10)"
    apply (simp add: ResetProposal_def ResetProposal_setup_def adaptive_stuck_def deweight_def
        dmax_def dmin_def Let_def ResizeTo_def seed_covariance_def seed_covariance_at_def
        vget_def mset_def upt_3)
    apply (simp add: UpdateProposal.simps deweight_def chol_diagonal_def mget_def dmax_def
        dmin_def upt_3)
    done
qed

section \<open>Properties of the driver\<close>

subsection \<open>The trial step\<close>

lemma cache_trial_step_prefix:
  "n \<le> length (fProposed s) \<Longrightarrow> length (fAccepted s) = length (fProposed s) \<Longrightarrow>
   length (fTrialStep s) = length (fProposed s) \<Longrightarrow>
   efold trial_step_at [0..<n] s =
     Inr (s\<lparr>fTrialStep := map2 dsub (take n (fProposed s)) (take n (fAccepted s)) @ drop n (fTrialStep s)\<rparr>)"
proof (induction n)
  case 0
  then show ?case by simp
next
  case (Suc n)
  let ?P = "fProposed s" and ?A = "fAccepted s" and ?T = "fTrialStep s"
  let ?Tn = "map2 dsub (take n ?P) (take n ?A) @ drop n ?T"
  have n: "n < length ?P" "n < length ?A" "n < length ?T" using Suc.prems by simp_all
  have len: "length ?Tn = length ?P" using n Suc.prems by simp
  have upd: "?Tn[n := dsub (?P ! n) (?A ! n)] =
      map2 dsub (take (Suc n) ?P) (take (Suc n) ?A) @ drop (Suc n) ?T"
    using n by (simp add: take_Suc_conv_app_nth list_update_append Cons_nth_drop_Suc [symmetric])
  have "efold trial_step_at [0..<Suc n] s = ebind (Inr (s\<lparr>fTrialStep := ?Tn\<rparr>)) (trial_step_at n)"
    using Suc by (simp add: efold_snoc)
  also have "\<dots> = Inr (s\<lparr>fTrialStep := ?Tn[n := dsub (?P ! n) (?A ! n)]\<rparr>)"
    using n len by (simp add: trial_step_at_def vget_def vset_def)
  finally show ?case by (simp only: upd)
qed

lemma cache_trial_step_eq:
  "length (fAccepted s) = length (fProposed s) \<Longrightarrow> length (fTrialStep s) = length (fProposed s) \<Longrightarrow>
   cache_trial_step s = Inr (s\<lparr>fTrialStep := map2 dsub (fProposed s) (fAccepted s)\<rparr>)"
  unfolding cache_trial_step_def by (simp add: cache_trial_step_prefix)

subsection \<open>Starting a chain, and the example chains\<close>

text \<open>Saving a step changes the tree only.\<close>

lemma SaveStep_fields [simp]:
  "fAccepted (SaveStep s) = fAccepted s"
  "fAcceptedLogLikelihood (SaveStep s) = fAcceptedLogLikelihood s"
  "fProposed (SaveStep s) = fProposed s"
  "fProposedLogLikelihood (SaveStep s) = fProposedLogLikelihood s"
  "fTrialStep (SaveStep s) = fTrialStep s"
  "fProposeStep (SaveStep s) = fProposeStep s"
  "fLogLikelihoodCount (SaveStep s) = fLogLikelihoodCount s"
  by (simp_all add: SaveStep_def split: option.splits)

text \<open>\<^verbatim>\<open>Start\<close> leaves a started chain.\<close>

lemma Start_started:
  "fProposed (Start L x save s) = x \<and> fAccepted (Start L x save s) = x
   \<and> length (fTrialStep (Start L x save s)) = length x
   \<and> fAcceptedLogLikelihood (Start L x save s) = L x
   \<and> fProposedLogLikelihood (Start L x save s) = L x"
  by (simp add: Start_def GetLogLikelihoodValue_def vresize_def Let_def)

lemma adaptive_chain_fields:
  "fProposed adaptive_chain = [Fin 1, Fin 2, Fin 3]"
  "fAccepted adaptive_chain = [Fin 1, Fin 2, Fin 3]"
  "fTrialStep adaptive_chain = [Fin 0, Fin 0, Fin 0]"
  "fAcceptedLogLikelihood adaptive_chain = Fin (- 7)"
  "fProposeStep adaptive_chain = adaptive_3d"
  by (simp_all add: adaptive_chain_def Start_def TSimpleMCMC_new_def GetLogLikelihoodValue_def
      vresize_def Let_def TDummyLogLikelihood_def)

lemma simple_chain_fields:
  "fProposed (simple_chain L [x]) = [x]" "fAccepted (simple_chain L [x]) = [x]"
  "fTrialStep (simple_chain L [x]) = [Fin 0]"
  "fAcceptedLogLikelihood (simple_chain L [x]) = L [x]"
  "fProposeStep (simple_chain L [x]) = TProposeSimpleStep_new"
  by (simp_all add: simple_chain_def Start_def TSimpleMCMC_new_def GetLogLikelihoodValue_def
      vresize_def Let_def)

lemma simple_call_1:
  "TProposeSimpleStep_call TProposeSimpleStep_new (constant_rng u z) [x] [Fin c] v =
     Some (Inr (TProposeSimpleStep_new, (constant_rng u z)\<lparr>gaus_pos := 1\<rparr>, [Fin (c + z)]))"
  by (simp add: TProposeSimpleStep_call_def TProposeSimpleStep_new_def
      simple_step_at_def vget_def vset_def Gaus_def Let_def)

lemma ln_half_gt: "- 2 < ln (1 / 2 :: real)"
proof -
  have "ln (2::real) < 2" by (rule ln_less_self) simp
  then show ?thesis by (simp add: ln_div)
qed

subsection \<open>One step of the chain\<close>

text \<open>
  A chain is started when \<^verbatim>\<open>Start\<close> has run: the accepted and the proposed point are
  not empty and the trial step has their size. The theorems below are about a step of a
  started chain whose proposal returns a point of the same size.
\<close>

lemma not_dless_of_dge:
  "dge a b \<or> dge (dsub a b) (Fin 0) \<Longrightarrow> \<not> dless (dsub a b) (Fin 0)"
  by (cases a; cases b) (auto simp: dge_def dne_def dsub_def)

lemma Step_after_nosave:
  "Step_after L False s g =
     Step_decide False (s\<lparr>fLogLikelihoodCount := fLogLikelihoodCount s + 1,
                          fProposedLogLikelihood := L (fProposed s)\<rparr>) g"
  by (simp add: Step_after_def GetLogLikelihoodValue_def)

lemma Step_after_save:
  "length (fAccepted s) = length (fProposed s) \<Longrightarrow> length (fTrialStep s) = length (fProposed s) \<Longrightarrow>
   Step_after L True s g =
     Step_decide True (s\<lparr>fTrialStep := map2 dsub (fProposed s) (fAccepted s),
                         fLogLikelihoodCount := fLogLikelihoodCount s + 1,
                         fProposedLogLikelihood := L (fProposed s)\<rparr>) g"
  by (simp add: Step_after_def GetLogLikelihoodValue_def cache_trial_step_eq)

lemma Step_started:
  "fProposed s \<noteq> [] \<Longrightarrow> fAccepted s \<noteq> [] \<Longrightarrow>
   propose (fProposeStep s) g (fProposed s) (fAccepted s) (fAcceptedLogLikelihood s)
     = Some (Inr (p, g1, proposed)) \<Longrightarrow>
   Step L propose save s g =
     Some (Step_after L save (s\<lparr>fProposeStep := p, fProposed := proposed\<rparr>) g1)"
  by (simp add: Step_def)

text \<open>
  Claim C1. A step whose proposed log likelihood is greater than or equal to the accepted
  one (\<^verbatim>\<open>delta >= 0\<close>) accepts: \<^verbatim>\<open>Step\<close> returns true, and the proposed point and
  its log likelihood are copied into the accepted point and the accepted log likelihood.
  The hypothesis covers both readings, the comparison of the two likelihoods and the
  comparison of their difference with zero. No uniform deviate is drawn on this path.
\<close>

theorem Step_accepts_when_not_worse:
  assumes "fProposed s \<noteq> []" and "fAccepted s \<noteq> []"
    and "propose (fProposeStep s) g (fProposed s) (fAccepted s) (fAcceptedLogLikelihood s)
           = Some (Inr (p, g1, proposed))"
    and "length proposed = length (fAccepted s)"
    and "length (fTrialStep s) = length (fAccepted s)"
    and "dge (L proposed) (fAcceptedLogLikelihood s)
         \<or> dge (dsub (L proposed) (fAcceptedLogLikelihood s)) (Fin 0)"
  shows "\<exists>s'. Step L propose save s g = Some (Inr (True, s', g1))
           \<and> fAccepted s' = proposed \<and> fAcceptedLogLikelihood s' = L proposed
           \<and> fProposed s' = proposed \<and> fProposedLogLikelihood s' = L proposed"
proof -
  have nd: "\<not> dless (dsub (L proposed) (fAcceptedLogLikelihood s)) (Fin 0)"
    using assms(6) by (rule not_dless_of_dge)
  show ?thesis
  proof (cases save)
    case True
    then show ?thesis
      using assms(1-5) nd
      by (simp add: Step_started Step_after_save Step_decide_def Step_keep_def vcopy_def)
  next
    case False
    then show ?thesis
      using assms(1-5) nd
      by (simp add: Step_started Step_after_nosave Step_decide_def Step_keep_def vcopy_def)
  qed
qed

text \<open>
  The chain with the fixed-width proposal starts at \<open>1\<close> with the likelihood
  \<open>-x\<^sup>2/2\<close>; the normal deviate \<open>-1\<close> proposes \<open>0\<close>, where the likelihood is larger.
  The chain with the adaptive proposal stands at \<open>(1, 2, 3)\<close>, and the deviates propose
  the origin.
\<close>

theorem Step_accepts_when_not_worse_witness:
  "(\<exists>s'. Step TDummyLogLikelihood TProposeSimpleStep_call True
          (simple_chain TDummyLogLikelihood [Fin 1]) (constant_rng (1 / 2) (- 1))
        = Some (Inr (True, s', (constant_rng (1 / 2) (- 1))\<lparr>gaus_pos := 1\<rparr>))
      \<and> fAccepted s' = [Fin 0] \<and> fAcceptedLogLikelihood s' = TDummyLogLikelihood [Fin 0]
      \<and> fProposed s' = [Fin 0] \<and> fProposedLogLikelihood s' = TDummyLogLikelihood [Fin 0])
   \<and> (\<exists>s' g1. Step TDummyLogLikelihood (TProposeAdaptiveStep_call chol_diagonal) True
          adaptive_chain (list_rng [1 / 2] [- 2, - 5])
        = Some (Inr (True, s', g1))
      \<and> fAccepted s' = [Fin 0, Fin 0, Fin 0] \<and> fAcceptedLogLikelihood s' = Fin 0)"
proof
  show "\<exists>s'. Step TDummyLogLikelihood TProposeSimpleStep_call True
          (simple_chain TDummyLogLikelihood [Fin 1]) (constant_rng (1 / 2) (- 1))
        = Some (Inr (True, s', (constant_rng (1 / 2) (- 1))\<lparr>gaus_pos := 1\<rparr>))
      \<and> fAccepted s' = [Fin 0] \<and> fAcceptedLogLikelihood s' = TDummyLogLikelihood [Fin 0]
      \<and> fProposed s' = [Fin 0] \<and> fProposedLogLikelihood s' = TDummyLogLikelihood [Fin 0]"
    by (rule Step_accepts_when_not_worse)
       (simp_all add: simple_chain_fields simple_call_1 TDummyLogLikelihood_def dge_def dne_def)
next
  from adaptive_call_3d [of "[]" "- 2" "- 5"] obtain s1 g1 where
    c: "TProposeAdaptiveStep_call chol_diagonal adaptive_3d (list_rng [1 / 2] [- 2, - 5])
       [Fin 1, Fin 2, Fin 3] [Fin 1, Fin 2, Fin 3] (Fin (- 7))
     = Some (Inr (s1, g1, [Fin 0, Fin 0, Fin 0]))" by auto
  have "\<exists>s'. Step TDummyLogLikelihood (TProposeAdaptiveStep_call chol_diagonal) True adaptive_chain
          (list_rng [1 / 2] [- 2, - 5])
        = Some (Inr (True, s', g1))
      \<and> fAccepted s' = [Fin 0, Fin 0, Fin 0]
      \<and> fAcceptedLogLikelihood s' = TDummyLogLikelihood [Fin 0, Fin 0, Fin 0]
      \<and> fProposed s' = [Fin 0, Fin 0, Fin 0]
      \<and> fProposedLogLikelihood s' = TDummyLogLikelihood [Fin 0, Fin 0, Fin 0]"
    by (rule Step_accepts_when_not_worse [where p = s1])
       (simp_all add: adaptive_chain_fields c TDummyLogLikelihood_def dge_def dne_def)
  then show "\<exists>s' g1. Step TDummyLogLikelihood (TProposeAdaptiveStep_call chol_diagonal) True
          adaptive_chain (list_rng [1 / 2] [- 2, - 5])
        = Some (Inr (True, s', g1))
      \<and> fAccepted s' = [Fin 0, Fin 0, Fin 0] \<and> fAcceptedLogLikelihood s' = Fin 0"
    by (auto simp: TDummyLogLikelihood_def)
qed

lemma trial_step_at_frame:
  "trial_step_at i a = Inr b \<Longrightarrow>
   fAccepted a = A \<and> fAcceptedLogLikelihood a = l \<Longrightarrow>
   fAccepted b = A \<and> fAcceptedLogLikelihood b = l"
  by (auto simp: trial_step_at_def ebind_def split: sum.splits)

lemma cache_trial_step_frame:
  assumes "cache_trial_step a = Inr b"
  shows "fAccepted b = fAccepted a \<and> fAcceptedLogLikelihood b = fAcceptedLogLikelihood a"
  using assms unfolding cache_trial_step_def
  by (rule efold_preserves [where P = "\<lambda>c. fAccepted c = fAccepted a
        \<and> fAcceptedLogLikelihood c = fAcceptedLogLikelihood a", rotated 1])
     (simp, erule trial_step_at_frame, simp)

lemma Step_decide_False_frame:
  "Step_decide save a g = Inr (False, b, g') \<Longrightarrow>
   fAccepted b = fAccepted a \<and> fAcceptedLogLikelihood b = fAcceptedLogLikelihood a"
  by (auto simp: Step_decide_def Step_keep_def Let_def ebind_def
      split: if_splits prod.splits sum.splits)

lemma Step_False_frame:
  assumes "Step L propose save s g = Some (Inr (False, s', g'))"
  shows "fAccepted s' = fAccepted s \<and> fAcceptedLogLikelihood s' = fAcceptedLogLikelihood s"
proof -
  from assms obtain p g1 proposed where
    after: "Step_after L save (s\<lparr>fProposeStep := p, fProposed := proposed\<rparr>) g1
              = Inr (False, s', g')"
    by (auto simp: Step_def split: if_splits option.splits sum.splits)
  let ?s0 = "s\<lparr>fProposeStep := p, fProposed := proposed\<rparr>"
  from after obtain s1 where
    s1: "(if save then cache_trial_step ?s0 else Inr ?s0) = Inr s1"
    and dec: "Step_decide save
        (s1\<lparr>fLogLikelihoodCount := fLogLikelihoodCount s1 + 1,
             fProposedLogLikelihood := L (fProposed s1)\<rparr>) g1 = Inr (False, s', g')"
    by (auto simp: Step_after_def GetLogLikelihoodValue_def ebind_def split: sum.splits)
  have "fAccepted s1 = fAccepted s \<and> fAcceptedLogLikelihood s1 = fAcceptedLogLikelihood s"
  proof (cases save)
    case True
    with s1 cache_trial_step_frame [of ?s0 s1] show ?thesis by simp
  next
    case False
    with s1 show ?thesis by auto
  qed
  with Step_decide_False_frame [OF dec] show ?thesis by simp
qed

text \<open>
  Claim C2. A rejected step leaves the accepted point and the accepted log likelihood
  as they were, and \<^verbatim>\<open>Step\<close> returns false. First: whenever \<^verbatim>\<open>Step\<close> returns false,
  the two are untouched. Second: when the test rejects (\<^verbatim>\<open>delta < 0\<close> and
  \<^verbatim>\<open>delta < log(u)\<close> for the uniform deviate \<open>u\<close> drawn), \<^verbatim>\<open>Step\<close> does return false.
\<close>

theorem Step_rejected_keeps_accepted:
  "(Step L propose save s g = Some (Inr (False, s', g'))
      \<longrightarrow> fAccepted s' = fAccepted s \<and> fAcceptedLogLikelihood s' = fAcceptedLogLikelihood s)
   \<and> (fProposed s \<noteq> [] \<and> fAccepted s \<noteq> []
      \<and> propose (fProposeStep s) g (fProposed s) (fAccepted s) (fAcceptedLogLikelihood s)
           = Some (Inr (p, g1, proposed))
      \<and> length proposed = length (fAccepted s) \<and> length (fTrialStep s) = length (fAccepted s)
      \<and> dless (dsub (L proposed) (fAcceptedLogLikelihood s)) (Fin 0)
      \<and> dless (dsub (L proposed) (fAcceptedLogLikelihood s)) (dlog (fst (Uniform0 g1)))
      \<longrightarrow> (\<exists>s''. Step L propose save s g = Some (Inr (False, s'', snd (Uniform0 g1)))
             \<and> fAccepted s'' = fAccepted s
             \<and> fAcceptedLogLikelihood s'' = fAcceptedLogLikelihood s))"
proof (rule conjI)
  show "Step L propose save s g = Some (Inr (False, s', g'))
      \<longrightarrow> fAccepted s' = fAccepted s \<and> fAcceptedLogLikelihood s' = fAcceptedLogLikelihood s"
    using Step_False_frame by blast
next
  show "fProposed s \<noteq> [] \<and> fAccepted s \<noteq> []
      \<and> propose (fProposeStep s) g (fProposed s) (fAccepted s) (fAcceptedLogLikelihood s)
           = Some (Inr (p, g1, proposed))
      \<and> length proposed = length (fAccepted s) \<and> length (fTrialStep s) = length (fAccepted s)
      \<and> dless (dsub (L proposed) (fAcceptedLogLikelihood s)) (Fin 0)
      \<and> dless (dsub (L proposed) (fAcceptedLogLikelihood s)) (dlog (fst (Uniform0 g1)))
      \<longrightarrow> (\<exists>s''. Step L propose save s g = Some (Inr (False, s'', snd (Uniform0 g1)))
             \<and> fAccepted s'' = fAccepted s
             \<and> fAcceptedLogLikelihood s'' = fAcceptedLogLikelihood s)"
  proof (cases save)
    case True
    then show ?thesis
      by (simp add: Step_started Step_after_save Step_decide_def split_beta)
  next
    case False
    then show ?thesis
      by (simp add: Step_started Step_after_nosave Step_decide_def split_beta)
  qed
qed

text \<open>
  The chain with the fixed-width proposal starts at \<open>0\<close>; the normal deviate \<open>2\<close>
  proposes \<open>2\<close> with \<open>delta = -2\<close>, and the uniform deviate \<open>1/2\<close> rejects it. The
  chain with the adaptive proposal stands at \<open>(1, 2, 3)\<close>; \<open>(2, 0, 11/2)\<close> is proposed
  with \<open>delta = -81/8\<close>, and the second raw deviate \<open>1/2\<close> rejects it.
\<close>

theorem Step_rejected_keeps_accepted_witness:
  "(\<exists>s''. Step TDummyLogLikelihood TProposeSimpleStep_call True
          (simple_chain TDummyLogLikelihood [Fin 0]) (constant_rng (1 / 2) 2)
        = Some (Inr (False, s'', (constant_rng (1 / 2) 2)\<lparr>gaus_pos := 1, rndm_pos := 1\<rparr>))
      \<and> fAccepted s'' = [Fin 0] \<and> fAcceptedLogLikelihood s'' = Fin 0)
   \<and> (\<exists>s'' g'. Step TDummyLogLikelihood (TProposeAdaptiveStep_call chol_diagonal) True
          adaptive_chain (list_rng [1 / 2, 1 / 2] [2, 4])
        = Some (Inr (False, s'', g'))
      \<and> fAccepted s'' = [Fin 1, Fin 2, Fin 3] \<and> fAcceptedLogLikelihood s'' = Fin (- 7))"
proof
  show "\<exists>s''. Step TDummyLogLikelihood TProposeSimpleStep_call True
          (simple_chain TDummyLogLikelihood [Fin 0]) (constant_rng (1 / 2) 2)
        = Some (Inr (False, s'', (constant_rng (1 / 2) 2)\<lparr>gaus_pos := 1, rndm_pos := 1\<rparr>))
      \<and> fAccepted s'' = [Fin 0] \<and> fAcceptedLogLikelihood s'' = Fin 0"
    using Step_rejected_keeps_accepted [of TDummyLogLikelihood TProposeSimpleStep_call True
        "simple_chain TDummyLogLikelihood [Fin 0]" "constant_rng (1 / 2) 2" undefined undefined
        TProposeSimpleStep_new "(constant_rng (1 / 2) 2)\<lparr>gaus_pos := 1\<rparr>" "[Fin 2]"]
      ln_half_gt
    by (simp add: simple_chain_fields simple_call_1 TDummyLogLikelihood_def dsub_def
        Uniform0_def)
next
  let ?g = "list_rng [1 / 2, 1 / 2] [2, 4]"
  from adaptive_call_3d [of "[1 / 2]" 2 4] obtain s1 g1 where
    c: "TProposeAdaptiveStep_call chol_diagonal adaptive_3d ?g
       [Fin 1, Fin 2, Fin 3] [Fin 1, Fin 2, Fin 3] (Fin (- 7))
     = Some (Inr (s1, g1, [Fin 2, Fin 0, Fin (11 / 2)]))"
    and t: "rndm_tape g1 = rndm_tape ?g" and n: "rndm_pos g1 = 1" by auto
  have u: "fst (Uniform0 g1) = Fin (1 / 2)"
    by (simp add: Uniform0_def t n list_rng_def)
  have "- 81 / 8 < ln (1 / 2 :: real)" using ln_half_gt by simp
  then have "\<exists>s''. Step TDummyLogLikelihood (TProposeAdaptiveStep_call chol_diagonal) True
          adaptive_chain ?g = Some (Inr (False, s'', snd (Uniform0 g1)))
      \<and> fAccepted s'' = fAccepted adaptive_chain
      \<and> fAcceptedLogLikelihood s'' = fAcceptedLogLikelihood adaptive_chain"
    using Step_rejected_keeps_accepted [of TDummyLogLikelihood
        "TProposeAdaptiveStep_call chol_diagonal" True adaptive_chain ?g undefined undefined
        s1 g1 "[Fin 2, Fin 0, Fin (11 / 2)]"]
    by (simp add: adaptive_chain_fields c u TDummyLogLikelihood_def dsub_def)
  then show "\<exists>s'' g'. Step TDummyLogLikelihood (TProposeAdaptiveStep_call chol_diagonal) True
          adaptive_chain ?g = Some (Inr (False, s'', g'))
      \<and> fAccepted s'' = [Fin 1, Fin 2, Fin 3] \<and> fAcceptedLogLikelihood s'' = Fin (- 7)"
    by (auto simp: adaptive_chain_fields)
qed

text \<open>
  Claim C3, as the code has it. When the likelihood of the proposed point is \<open>-\<infinity>\<close> and
  the accepted log likelihood is finite, the step rejects the proposal for every
  positive uniform deviate.
\<close>

theorem Step_rejects_minus_infinity:
  assumes "fProposed s \<noteq> []" and "fAccepted s \<noteq> []"
    and "propose (fProposeStep s) g (fProposed s) (fAccepted s) (fAcceptedLogLikelihood s)
           = Some (Inr (p, g1, proposed))"
    and "length proposed = length (fAccepted s)"
    and "length (fTrialStep s) = length (fAccepted s)"
    and "L proposed = MInf" and "fAcceptedLogLikelihood s = Fin a"
    and "0 < rndm_tape g1 (rndm_pos g1)"
  shows "\<exists>s'. Step L propose save s g = Some (Inr (False, s', snd (Uniform0 g1)))
           \<and> fAccepted s' = fAccepted s \<and> fAcceptedLogLikelihood s' = Fin a"
proof (cases save)
  case True
  with assms show ?thesis
    by (simp add: Step_started Step_after_save Step_decide_def split_beta dsub_def Uniform0_def)
next
  case False
  with assms show ?thesis
    by (simp add: Step_started Step_after_nosave Step_decide_def split_beta dsub_def Uniform0_def)
qed

text \<open>
  A likelihood that is flat on the positive half line and \<open>-\<infinity>\<close> elsewhere; the chain
  starts at \<open>0\<close> and \<open>-1\<close> is proposed.
\<close>

theorem Step_rejects_minus_infinity_witness:
  "\<exists>s'. Step TFlatPositiveLikelihood TProposeSimpleStep_call True
          (simple_chain TFlatPositiveLikelihood [Fin 0]) (constant_rng (1 / 2) (- 1))
        = Some (Inr (False, s', snd (Uniform0 ((constant_rng (1 / 2) (- 1))\<lparr>gaus_pos := 1\<rparr>))))
      \<and> fAccepted s' = fAccepted (simple_chain TFlatPositiveLikelihood [Fin 0])
      \<and> fAcceptedLogLikelihood s' = Fin 0"
  by (rule Step_rejects_minus_infinity [where a = 0 and proposed = "[Fin (- 1)]"])
     (simp_all add: simple_chain_fields simple_call_1 TFlatPositiveLikelihood_def)

text \<open>
  The same chain with the uniform deviate \<open>0\<close>: \<^verbatim>\<open>trial = log(0) = -inf\<close>, the test
  \<^verbatim>\<open>delta < trial\<close> compares \<open>-\<infinity>\<close> with itself and is false, and the point of
  likelihood \<open>-\<infinity>\<close> is accepted. So the rejection does depend on the uniform deviate.
\<close>

theorem Step_minus_infinity_zero_draw_accepts:
  "fAcceptedLogLikelihood (simple_chain TFlatPositiveLikelihood [Fin 0]) = Fin 0
   \<and> TFlatPositiveLikelihood [Fin (- 1)] = MInf
   \<and> Step TFlatPositiveLikelihood TProposeSimpleStep_call True
          (simple_chain TFlatPositiveLikelihood [Fin 0]) (constant_rng 0 (- 1))
      = Some (Inr (True,
          \<lparr>fProposeStep = TProposeSimpleStep_new,
           fTree = Some \<lparr>hasStepBranch = True,
                         entries = [(Fin 0, [Fin 0], Some [Fin 0]),
                                    (MInf, [Fin (- 1)], Some [Fin (- 1)])]\<rparr>,
           fLogLikelihoodCount = 2, fAccepted = [Fin (- 1)], fAcceptedLogLikelihood = MInf,
           fTrialStep = [Fin (- 1)], fProposed = [Fin (- 1)], fProposedLogLikelihood = MInf\<rparr>,
          (constant_rng 0 (- 1))\<lparr>gaus_pos := 1, rndm_pos := 1\<rparr>))"
proof -
  have "Step TFlatPositiveLikelihood TProposeSimpleStep_call True
          (simple_chain TFlatPositiveLikelihood [Fin 0]) (constant_rng 0 (- 1))
      = Some (Inr (True,
          SaveStep ((simple_chain TFlatPositiveLikelihood [Fin 0])
            \<lparr>fProposeStep := TProposeSimpleStep_new, fProposed := [Fin (- 1)],
             fTrialStep := [Fin (- 1)], fLogLikelihoodCount := 2,
             fProposedLogLikelihood := MInf, fAccepted := [Fin (- 1)],
             fAcceptedLogLikelihood := MInf\<rparr>),
          (constant_rng 0 (- 1))\<lparr>gaus_pos := 1, rndm_pos := 1\<rparr>))"
    by (simp add: Step_started Step_after_save Step_decide_def Step_keep_def vcopy_def
        simple_chain_fields simple_call_1 TFlatPositiveLikelihood_def dsub_def Uniform0_def)
       (simp add: simple_chain_def Start_def TSimpleMCMC_new_def GetLogLikelihoodValue_def
        SaveStep_def)
  then show ?thesis
    by (simp add: simple_chain_def Start_def SaveStep_def Fill_def TSimpleMCMC_new_def
        GetLogLikelihoodValue_def vresize_def TFlatPositiveLikelihood_def)
qed

lemma Step_decide_trial_step:
  "length (fProposed a) = length (fAccepted a) \<Longrightarrow>
   \<exists>b s' g'. Step_decide save a g = Inr (b, s', g') \<and> fTrialStep s' = fTrialStep a"
  by (auto simp: Step_decide_def Step_keep_def vcopy_def Let_def split_beta)

text \<open>
  Claim C10. \<^verbatim>\<open>Step\<close> recomputes the trial step only when it is called with
  \<^verbatim>\<open>save = true\<close>: then it is the proposed point minus the accepted point from before
  the step. With \<^verbatim>\<open>save = false\<close> the trial step keeps the contents it had.
\<close>

theorem Step_trial_step:
  assumes "fProposed s \<noteq> []" and "fAccepted s \<noteq> []"
    and "propose (fProposeStep s) g (fProposed s) (fAccepted s) (fAcceptedLogLikelihood s)
           = Some (Inr (p, g1, proposed))"
    and "length proposed = length (fAccepted s)"
    and "length (fTrialStep s) = length (fAccepted s)"
  shows "\<exists>b s' g'. Step L propose save s g = Some (Inr (b, s', g'))
           \<and> fTrialStep s' = (if save then map2 dsub proposed (fAccepted s) else fTrialStep s)"
proof (cases save)
  case True
  let ?a = "s\<lparr>fProposeStep := p, fProposed := proposed,
              fTrialStep := map2 dsub proposed (fAccepted s),
              fLogLikelihoodCount := fLogLikelihoodCount s + 1,
              fProposedLogLikelihood := L proposed\<rparr>"
  have "length (fProposed ?a) = length (fAccepted ?a)" using assms(4) by simp
  from Step_decide_trial_step [OF this, of True g1] True assms show ?thesis
    by (simp add: Step_started Step_after_save)
next
  case False
  let ?a = "s\<lparr>fProposeStep := p, fProposed := proposed,
              fLogLikelihoodCount := fLogLikelihoodCount s + 1,
              fProposedLogLikelihood := L proposed\<rparr>"
  have "length (fProposed ?a) = length (fAccepted ?a)" using assms(4) by simp
  from Step_decide_trial_step [OF this, of False g1] False assms show ?thesis
    by (simp add: Step_started Step_after_nosave)
qed

text \<open>
  The chain starts at \<open>1\<close> (where \<^verbatim>\<open>Start\<close> resized the trial step to one zero) and
  \<open>3\<close> is proposed: a saving step stores \<open>2\<close>, a step that does not save leaves the zero.
\<close>

theorem Step_trial_step_witness:
  "(\<exists>b s' g'. Step TDummyLogLikelihood TProposeSimpleStep_call True
          (simple_chain TDummyLogLikelihood [Fin 1]) (constant_rng (1 / 2) 2)
        = Some (Inr (b, s', g')) \<and> fTrialStep s' = [Fin 2])
   \<and> (\<exists>b s' g'. Step TDummyLogLikelihood TProposeSimpleStep_call False
          (simple_chain TDummyLogLikelihood [Fin 1]) (constant_rng (1 / 2) 2)
        = Some (Inr (b, s', g')) \<and> fTrialStep s' = [Fin 0])"
  using Step_trial_step [of "simple_chain TDummyLogLikelihood [Fin 1]" TProposeSimpleStep_call
      "constant_rng (1 / 2) 2" TProposeSimpleStep_new "(constant_rng (1 / 2) 2)\<lparr>gaus_pos := 1\<rparr>"
      "[Fin 3]" TDummyLogLikelihood True]
    Step_trial_step [of "simple_chain TDummyLogLikelihood [Fin 1]" TProposeSimpleStep_call
      "constant_rng (1 / 2) 2" TProposeSimpleStep_new "(constant_rng (1 / 2) 2)\<lparr>gaus_pos := 1\<rparr>"
      "[Fin 3]" TDummyLogLikelihood False]
  by (simp add: simple_chain_fields simple_call_1 dsub_def)

end
